theory Spec2Isabelle
  imports Complex_Main "HOL-Library.AList"
begin

section \<open>JavaScript values and array helpers\<close>

text \<open>
  The force-directed graph class \<^verbatim>\<open>Force\<close> of \<^verbatim>\<open>src/Graph/Force.js\<close> keeps its
  vertices and edges as arrays of mutable objects. Identities (\<^verbatim>\<open>_id\<close>, \<^verbatim>\<open>_from\<close>,
  \<^verbatim>\<open>_to\<close>) are strings. An array read that misses (\<^verbatim>\<open>xs[i]\<close> out of range) gives
  \<^verbatim>\<open>undefined\<close>, a property read on \<^verbatim>\<open>undefined\<close> throws a \<^verbatim>\<open>TypeError\<close>.
\<close>

datatype jsid = Id string | Undefined

datatype error = TypeError

text \<open>\<^verbatim>\<open>xs.indexOf(x)\<close>: the first position of \<open>x\<close>, or \<open>-1\<close>.\<close>

fun indexOf_from :: "'a list \<Rightarrow> 'a \<Rightarrow> int \<Rightarrow> int" where
  "indexOf_from [] x i = - 1"
| "indexOf_from (y # ys) x i = (if y = x then i else indexOf_from ys x (i + 1))"

definition indexOf :: "'a list \<Rightarrow> 'a \<Rightarrow> int" where
  "indexOf xs x = indexOf_from xs x 0"

text \<open>\<^verbatim>\<open>xs[i]\<close> on an array of strings, for any number \<open>i\<close>.\<close>

definition array_get :: "string list \<Rightarrow> int \<Rightarrow> jsid" where
  "array_get xs i = (if 0 \<le> i \<and> i < int (length xs) then Id (xs ! nat i) else Undefined)"

text \<open>\<^verbatim>\<open>Array.from(new Set(xs))\<close>: every value once, in the order of first occurrence.\<close>

fun set_add_all :: "'a list \<Rightarrow> 'a list \<Rightarrow> 'a list" where
  "set_add_all seen [] = seen"
| "set_add_all seen (x # xs) = set_add_all (if x \<in> set seen then seen else seen @ [x]) xs"

definition array_from_set :: "'a list \<Rightarrow> 'a list" where
  "array_from_set xs = set_add_all [] xs"

text \<open>
  \<^verbatim>\<open>Object.keys(obj)\<close> for an object whose keys are the decimal strings of numbers:
  the array indices (non-negative integers) in ascending order first, then the other
  keys (here only \<^verbatim>\<open>"-1"\<close> can occur) in insertion order. The object itself is an
  association list in insertion order.
\<close>

type_synonym adj_obj = "(int \<times> string list) list"

definition object_keys :: "adj_obj \<Rightarrow> int list" where
  "object_keys obj = sort (filter (\<lambda>k. 0 \<le> k) (map fst obj)) @ filter (\<lambda>k. k < 0) (map fst obj)"

text \<open>\<^verbatim>\<open>x.state || 'normal'\<close>: a missing or empty state is falsy.\<close>

definition state_or_normal :: "string option \<Rightarrow> string" where
  "state_or_normal st = (case st of None \<Rightarrow> ''normal'' | Some x \<Rightarrow> if x = [] then ''normal'' else x)"

text \<open>
  The values that the counters of \<^verbatim>\<open>setEdgeIndex\<close> and \<^verbatim>\<open>onTick\<close> and the
  multiplicity fields of an edge take: \<^verbatim>\<open>undefined\<close>, \<^verbatim>\<open>NaN\<close>, a natural number,
  a member inherited from \<^verbatim>\<open>Object.prototype\<close> (a function, or under
  \<^verbatim>\<open>__proto__\<close> the prototype object), and the string that \<^verbatim>\<open>+ 1\<close> makes of such a
  member. A member and that string are truthy, and \<^verbatim>\<open>++\<close> and \<^verbatim>\<open>*\<close> turn them into
  \<^verbatim>\<open>NaN\<close>.
\<close>

datatype jsval = Undef | NaN | Number nat | Member | Text

definition truthy :: "jsval \<Rightarrow> bool" where
  "truthy v = (case v of Number n \<Rightarrow> n \<noteq> 0 | Member \<Rightarrow> True | Text \<Rightarrow> True | _ \<Rightarrow> False)"

text \<open>
  A counter is a plain object \<^verbatim>\<open>{}\<close>, kept as the map of its own properties. A read
  \<^verbatim>\<open>obj[k]\<close> that finds no own property finds the member of \<^verbatim>\<open>Object.prototype\<close>
  of that name, if there is one. A write \<^verbatim>\<open>obj[k] = v\<close> makes an own property, except
  under \<^verbatim>\<open>__proto__\<close>, where a number or a string is ignored.
\<close>

definition object_prototype_names :: "string list" where
  "object_prototype_names =
     [''__defineGetter__'', ''__defineSetter__'', ''__lookupGetter__'', ''__lookupSetter__'',
      ''__proto__'', ''constructor'', ''hasOwnProperty'', ''isPrototypeOf'',
      ''propertyIsEnumerable'', ''toLocaleString'', ''toString'', ''valueOf'']"

definition prop_get :: "(string \<rightharpoonup> jsval) \<Rightarrow> string \<Rightarrow> jsval" where
  "prop_get obj k =
     (case obj k of Some v \<Rightarrow> v
      | None \<Rightarrow> if k \<in> set object_prototype_names then Member else Undef)"

definition prop_set :: "(string \<rightharpoonup> 'a) \<Rightarrow> string \<Rightarrow> 'a \<Rightarrow> (string \<rightharpoonup> 'a)" where
  "prop_set obj k v = (if k = ''__proto__'' then obj else obj(k \<mapsto> v))"

text \<open>\<^verbatim>\<open>obj[k]++\<close>: the old value as a number, plus one.\<close>

definition incr :: "(string \<rightharpoonup> jsval) \<Rightarrow> string \<Rightarrow> (string \<rightharpoonup> jsval)" where
  "incr obj k = prop_set obj k (case prop_get obj k of Number n \<Rightarrow> Number (n + 1) | _ \<Rightarrow> NaN)"

section \<open>The data model\<close>

text \<open>
  A vertex object carries \<^verbatim>\<open>_id\<close> and the optional \<^verbatim>\<open>type\<close>, \<^verbatim>\<open>name\<close> and
  \<^verbatim>\<open>state\<close>. An edge object carries \<^verbatim>\<open>_id\<close>, \<^verbatim>\<open>_from\<close>, \<^verbatim>\<open>_to\<close>, the optional
  \<^verbatim>\<open>state\<close>, and the fields that preprocessing writes: \<^verbatim>\<open>source\<close>, \<^verbatim>\<open>target\<close>,
  \<^verbatim>\<open>edgeIndex\<close>, \<^verbatim>\<open>siblingNum\<close> and \<^verbatim>\<open>labelDirection\<close>. A field that is
  \<open>None\<close> or \<open>Undef\<close> is absent from the object. The fields that the external
  simulator adds to vertices and edges (\<^verbatim>\<open>index\<close>, positions, velocities) are not
  part of the model.
\<close>

record vertex =
  v_id :: string
  v_type :: "string option"
  v_name :: "string option"
  v_state :: "string option"

record edge =
  e_id :: string
  e_from :: string
  e_to :: string
  e_state :: "string option"
  e_source :: "string option"
  e_target :: "string option"
  edgeIndex :: jsval
  siblingNum :: jsval
  labelDirection :: jsval

text \<open>
  Objects live in a store, addressed by natural numbers; an array of objects is a list
  of addresses, so that two arrays can share an object. The instance fields are those of
  the constructor: \<^verbatim>\<open>this.data\<close> (assigned by the base class constructor, which
  receives the same \<^verbatim>\<open>data\<close> argument), \<^verbatim>\<open>this.rawData\<close>, the working arrays
  \<^verbatim>\<open>this.vertexes\<close> and \<^verbatim>\<open>this.edges\<close>, and the shortest-path storage
  \<^verbatim>\<open>vertexesMap\<close>, \<^verbatim>\<open>adjList\<close>, \<^verbatim>\<open>edgeTo\<close> and \<^verbatim>\<open>marker\<close>.
\<close>

record force =
  vheap :: "nat \<Rightarrow> vertex"
  eheap :: "nat \<Rightarrow> edge"
  data_vertexes :: "nat list"
  data_edges :: "nat list"
  rawData_vertexes :: "nat list"
  rawData_edges :: "nat list"
  vertexes :: "nat list"
  edges :: "nat list"
  vertexesMap :: "string list"
  adjList :: "(int \<times> adj_obj) list"
  edgeTo :: "int \<rightharpoonup> int"
  marker :: "int \<rightharpoonup> bool"

text \<open>
  Modelled from the spec: the base class constructor (\<^verbatim>\<open>BaseGraph\<close>) and
  \<^verbatim>\<open>deepCopy\<close> (\<^verbatim>\<open>utils\<close>) are not under \<^verbatim>\<open>src/\<close>. The instance is
  constructed from a deep-copied raw snapshot: \<^verbatim>\<open>deepCopy\<close> allocates a
  structurally equal object at a fresh address for every object of its argument. The
  base class constructor receives the same \<^verbatim>\<open>data\<close> argument and is taken to
  keep it as \<^verbatim>\<open>this.data\<close>, the field that \<^verbatim>\<open>filterVertex\<close>,
  \<^verbatim>\<open>filterEdge\<close> and \<^verbatim>\<open>resetData\<close> read. The input objects are at the
  addresses \<open>0..<n\<close>, the copies of \<^verbatim>\<open>rawData\<close> at \<open>n..<2n\<close>, the working
  copies at \<open>2n..<3n\<close>.
\<close>

definition Force_new :: "vertex list \<Rightarrow> edge list \<Rightarrow> force" where
  "Force_new vs es =
     \<lparr> vheap = (\<lambda>a. (vs @ vs @ vs) ! a),
       eheap = (\<lambda>a. (es @ es @ es) ! a),
       data_vertexes = [0 ..< length vs],
       data_edges = [0 ..< length es],
       rawData_vertexes = [length vs ..< 2 * length vs],
       rawData_edges = [length es ..< 2 * length es],
       vertexes = [2 * length vs ..< 3 * length vs],
       edges = [2 * length es ..< 3 * length es],
       vertexesMap = [],
       adjList = [],
       edgeTo = Map.empty,
       marker = Map.empty \<rparr>"

text \<open>The objects an array of addresses currently holds.\<close>

definition vertex_values :: "force \<Rightarrow> nat list \<Rightarrow> vertex list" where
  "vertex_values s as = map (vheap s) as"

definition edge_values :: "force \<Rightarrow> nat list \<Rightarrow> edge list" where
  "edge_values s as = map (eheap s) as"

section \<open>Preprocessing\<close>

text \<open>
  \<^verbatim>\<open>preprocessData\<close>, first loop: every working vertex gets a state and its id is
  pushed on \<^verbatim>\<open>vertexesMap\<close>.
\<close>

fun preprocess_vertexes :: "nat list \<Rightarrow> force \<Rightarrow> force" where
  "preprocess_vertexes [] s = s"
| "preprocess_vertexes (a # as) s =
     (let v = vheap s a in
      preprocess_vertexes as
        (s\<lparr> vheap := (vheap s)(a := v\<lparr> v_state := Some (state_or_normal (v_state v)) \<rparr>),
            vertexesMap := vertexesMap s @ [v_id v] \<rparr>))"

text \<open>
  Second loop: every working edge gets \<^verbatim>\<open>source\<close>, \<^verbatim>\<open>target\<close> and a state, and its
  id is pushed on \<^verbatim>\<open>adjList[from][to]\<close>, where \<open>from\<close> and \<open>to\<close> are the ordinals
  that \<^verbatim>\<open>indexOf\<close> finds. \<open>adj_push\<close> is the three statements
  \<^verbatim>\<open>adjList[from] = adjList[from] || {}\<close>,
  \<^verbatim>\<open>adjList[from][to] = adjList[from][to] || []\<close> and
  \<^verbatim>\<open>adjList[from][to].push(e._id)\<close>.
\<close>

definition adj_push :: "(int \<times> adj_obj) list \<Rightarrow> int \<Rightarrow> int \<Rightarrow> string \<Rightarrow> (int \<times> adj_obj) list" where
  "adj_push adj from to i =
     (let row = (case map_of adj from of None \<Rightarrow> [] | Some obj \<Rightarrow> obj);
          ids = (case map_of row to of None \<Rightarrow> [] | Some l \<Rightarrow> l)
      in AList.update from (AList.update to (ids @ [i]) row) adj)"

fun preprocess_edges :: "nat list \<Rightarrow> force \<Rightarrow> force" where
  "preprocess_edges [] s = s"
| "preprocess_edges (a # as) s =
     (let e = eheap s a;
          from = indexOf (vertexesMap s) (e_from e);
          to = indexOf (vertexesMap s) (e_to e);
          e' = e\<lparr> e_source := Some (e_from e), e_target := Some (e_to e),
                  e_state := Some (state_or_normal (e_state e)) \<rparr>
      in preprocess_edges as
           (s\<lparr> eheap := (eheap s)(a := e'), adjList := adj_push (adjList s) from to (e_id e) \<rparr>))"

text \<open>
  \<^verbatim>\<open>setEdgeIndex\<close>. The counter \<^verbatim>\<open>edgeNumMap\<close> and the recorded direction
  \<^verbatim>\<open>edgeDirection\<close> are plain objects keyed by the concatenation of the endpoint ids
  (the ids are strings, so \<^verbatim>\<open>_from + _to\<close> appends them).
  The first branch (\<^verbatim>\<open>!edgeNumMap[_from + _to]\<close>) writes \<open>1\<close> and the edge's
  \<^verbatim>\<open>_from\<close> under both concatenations, the reversed one first; the second branch
  increments under both, the forward one first. (The local \<^verbatim>\<open>vertexNumMap\<close> is
  written and never read; it is left out.)
\<close>

definition count_edge :: "(string \<rightharpoonup> jsval) \<Rightarrow> edge \<Rightarrow> (string \<rightharpoonup> jsval)" where
  "count_edge edgeNumMap e =
     (let ft = e_from e @ e_to e;
          tf = e_to e @ e_from e
      in if \<not> truthy (prop_get edgeNumMap ft)
         then prop_set (prop_set edgeNumMap tf (Number 1)) ft (Number 1)
         else incr (incr edgeNumMap ft) tf)"

definition record_direction ::
  "(string \<rightharpoonup> jsval) \<Rightarrow> (string \<rightharpoonup> string) \<Rightarrow> edge \<Rightarrow> (string \<rightharpoonup> string)" where
  "record_direction edgeNumMap edgeDirection e =
     (let ft = e_from e @ e_to e;
          tf = e_to e @ e_from e
      in if \<not> truthy (prop_get edgeNumMap ft)
         then prop_set (prop_set edgeDirection tf (e_from e)) ft (e_from e)
         else edgeDirection)"

text \<open>
  The first loop writes \<^verbatim>\<open>edgeIndex\<close>, the second \<^verbatim>\<open>siblingNum\<close> and
  \<^verbatim>\<open>labelDirection\<close>. \<^verbatim>\<open>edgeDirection[k] === e._from\<close> holds only for an own
  property: an inherited member equals no string.
\<close>

fun edgeIndex_pass ::
  "nat list \<Rightarrow> (string \<rightharpoonup> jsval) \<Rightarrow> (string \<rightharpoonup> string) \<Rightarrow> (nat \<Rightarrow> edge)
     \<Rightarrow> (string \<rightharpoonup> jsval) \<times> (string \<rightharpoonup> string) \<times> (nat \<Rightarrow> edge)" where
  "edgeIndex_pass [] edgeNumMap edgeDirection h = (edgeNumMap, edgeDirection, h)"
| "edgeIndex_pass (a # as) edgeNumMap edgeDirection h =
     (let e = h a;
          num = count_edge edgeNumMap e;
          dir = record_direction edgeNumMap edgeDirection e
      in edgeIndex_pass as num dir (h(a := e\<lparr> edgeIndex := prop_get num (e_from e @ e_to e) \<rparr>)))"

fun sibling_pass ::
  "nat list \<Rightarrow> (string \<rightharpoonup> jsval) \<Rightarrow> (string \<rightharpoonup> string) \<Rightarrow> (nat \<Rightarrow> edge) \<Rightarrow> (nat \<Rightarrow> edge)" where
  "sibling_pass [] edgeNumMap edgeDirection h = h"
| "sibling_pass (a # as) edgeNumMap edgeDirection h =
     (let e = h a;
          ft = e_from e @ e_to e
      in sibling_pass as edgeNumMap edgeDirection
           (h(a := e\<lparr> siblingNum := prop_get edgeNumMap ft,
                      labelDirection := Number (if edgeDirection ft = Some (e_from e) then 1 else 0) \<rparr>)))"

definition setEdgeIndex :: "force \<Rightarrow> force" where
  "setEdgeIndex s =
     (case edgeIndex_pass (edges s) Map.empty Map.empty (eheap s) of
        (edgeNumMap, edgeDirection, h) \<Rightarrow>
          s\<lparr> eheap := sibling_pass (edges s) edgeNumMap edgeDirection h \<rparr>)"

text \<open>
  \<^verbatim>\<open>layout\<close> hands the working arrays to the external force simulator. The simulator
  writes \<^verbatim>\<open>index\<close>, \<^verbatim>\<open>x\<close>, \<^verbatim>\<open>y\<close>, \<^verbatim>\<open>vx\<close> and \<^verbatim>\<open>vy\<close> to the vertex
  objects and \<^verbatim>\<open>index\<close> to the edge objects, replaces \<^verbatim>\<open>source\<close> and
  \<^verbatim>\<open>target\<close> of an edge object by the vertex objects with those ids, and throws when
  an edge names an endpoint that is no working vertex, which is after all writes of
  \<^verbatim>\<open>preprocessData\<close>. The records above have none of the simulator's fields, and the
  ids that \<^verbatim>\<open>preprocessData\<close> wrote stand for the resolved endpoints; so on the
  fields of the model \<^verbatim>\<open>layout\<close> changes nothing. All instances evaluated below
  have the endpoints of their edges among the working vertices, and no result below is
  about what a callback reads from the simulator's fields.
\<close>

definition layout :: "force \<Rightarrow> force" where
  "layout s = s"

definition preprocessData :: "force \<Rightarrow> force" where
  "preprocessData s =
     (let s1 = preprocess_vertexes (vertexes s) s;
          s2 = preprocess_edges (edges s1) s1
      in layout (setEdgeIndex s2))"

section \<open>Shortest paths\<close>

text \<open>
  \<^verbatim>\<open>bfs\<close>: the markers of the ordinals \<open>0..<length vertexesMap\<close> are reset, the
  predecessor array \<^verbatim>\<open>edgeTo\<close> is not. The inner \<^verbatim>\<open>forEach\<close> over the keys of
  \<^verbatim>\<open>adjList[item]\<close> is \<open>bfs_visit\<close>, the \<^verbatim>\<open>while\<close> loop over the queue is
  \<open>bfs_loop\<close>.
\<close>

fun clear_marker :: "nat list \<Rightarrow> (int \<rightharpoonup> bool) \<Rightarrow> (int \<rightharpoonup> bool)" where
  "clear_marker [] mk = mk"
| "clear_marker (i # is) mk = clear_marker is (mk(int i \<mapsto> False))"

definition marked :: "(int \<rightharpoonup> bool) \<Rightarrow> int \<Rightarrow> bool" where
  "marked mk i = (mk i = Some True)"

fun bfs_visit ::
  "int \<Rightarrow> int list \<Rightarrow> (int \<rightharpoonup> bool) \<times> (int \<rightharpoonup> int) \<times> int list
     \<Rightarrow> (int \<rightharpoonup> bool) \<times> (int \<rightharpoonup> int) \<times> int list" where
  "bfs_visit item [] st = st"
| "bfs_visit item (i # ks) (mk, et, queue) =
     bfs_visit item ks
       (if \<not> marked mk i then (mk(i \<mapsto> True), et(i \<mapsto> item), queue @ [i])
        else (mk, et, queue))"

definition adj_keys :: "(int \<times> adj_obj) list \<Rightarrow> int set" where
  "adj_keys adj = (\<Union>(k, obj) \<in> set adj. fst ` set obj)"

definition bfs_measure ::
  "(int \<times> adj_obj) list \<times> (int \<rightharpoonup> bool) \<times> (int \<rightharpoonup> int) \<times> int list \<Rightarrow> nat" where
  "bfs_measure = (\<lambda>(adj, mk, et, queue).
     2 * card {k \<in> adj_keys adj. \<not> marked mk k} + length queue)"

lemma finite_adj_keys: "finite (adj_keys adj)"
  by (auto simp: adj_keys_def)

lemma set_object_keys: "set (object_keys obj) = fst ` set obj"
  by (auto simp: object_keys_def)

lemma bfs_visit_measure:
  "set ks \<subseteq> adj_keys adj \<Longrightarrow>
   bfs_measure (adj, bfs_visit item ks (mk, et, queue)) \<le> bfs_measure (adj, mk, et, queue)"
proof (induction ks arbitrary: mk et queue)
  case Nil
  then show ?case by simp
next
  case (Cons i ks)
  have sub: "set ks \<subseteq> adj_keys adj" and mem: "i \<in> adj_keys adj"
    using Cons.prems by auto
  show ?case
  proof (cases "marked mk i")
    case True
    then show ?thesis using Cons.IH [OF sub] by simp
  next
    case False
    let ?U = "{k \<in> adj_keys adj. \<not> marked mk k}"
    let ?U' = "{k \<in> adj_keys adj. \<not> marked (mk(i \<mapsto> True)) k}"
    have eq: "?U' = ?U - {i}"
      by (auto simp: marked_def)
    have fin: "finite ?U"
      using finite_adj_keys by simp
    have "i \<in> ?U"
      using mem False by simp
    then have "card ?U' < card ?U"
      unfolding eq using fin by (meson card_Diff1_less)
    then have step: "bfs_measure (adj, mk(i \<mapsto> True), et(i \<mapsto> item), queue @ [i])
        \<le> bfs_measure (adj, mk, et, queue)"
      by (simp add: bfs_measure_def)
    have "bfs_measure (adj, bfs_visit item ks (mk(i \<mapsto> True), et(i \<mapsto> item), queue @ [i]))
        \<le> bfs_measure (adj, mk(i \<mapsto> True), et(i \<mapsto> item), queue @ [i])"
      by (rule Cons.IH [OF sub])
    with step False show ?thesis by simp
  qed
qed

function bfs_loop ::
  "(int \<times> adj_obj) list \<Rightarrow> (int \<rightharpoonup> bool) \<times> (int \<rightharpoonup> int) \<times> int list
     \<Rightarrow> (int \<rightharpoonup> bool) \<times> (int \<rightharpoonup> int)" where
  "bfs_loop adj (mk, et, []) = (mk, et)"
| "bfs_loop adj (mk, et, item # queue) =
     (case map_of adj item of
        None \<Rightarrow> bfs_loop adj (mk, et, queue)
      | Some obj \<Rightarrow> bfs_loop adj (bfs_visit item (object_keys obj) (mk, et, queue)))"
  by pat_completeness auto

termination
proof (relation "measure bfs_measure")
  show "wf (measure bfs_measure)" by simp
next
  fix adj :: "(int \<times> adj_obj) list" and mk et item queue
  show "((adj, mk, et, queue), (adj, mk, et, item # queue)) \<in> measure bfs_measure"
    by (simp add: bfs_measure_def)
next
  fix adj :: "(int \<times> adj_obj) list" and mk et item queue obj
  assume "map_of adj item = Some obj"
  then have "(item, obj) \<in> set adj"
    by (rule map_of_SomeD)
  then have "set (object_keys obj) \<subseteq> adj_keys adj"
    by (auto simp: set_object_keys adj_keys_def)
  then have "bfs_measure (adj, bfs_visit item (object_keys obj) (mk, et, queue))
      \<le> bfs_measure (adj, mk, et, queue)"
    by (rule bfs_visit_measure)
  then show "((adj, bfs_visit item (object_keys obj) (mk, et, queue)), (adj, mk, et, item # queue))
      \<in> measure bfs_measure"
    by (simp add: bfs_measure_def)
qed

definition bfs :: "force \<Rightarrow> int \<Rightarrow> force" where
  "bfs s vertexNum =
     (let mk = clear_marker [0 ..< length (vertexesMap s)] (marker s);
          (mk', et') = bfs_loop (adjList s) (mk(vertexNum \<mapsto> True), edgeTo s, [vertexNum])
      in s\<lparr> marker := mk', edgeTo := et' \<rparr>)"

text \<open>
  \<^verbatim>\<open>pathTo\<close> follows \<^verbatim>\<open>edgeTo\<close> from the target until it meets the source or an
  ordinal without predecessor. Nothing bounds the loop, so the result is optional:
  \<open>None\<close> stands for a loop that does not end.
\<close>

partial_function (option) pathTo_loop ::
  "(int \<rightharpoonup> int) \<Rightarrow> int \<Rightarrow> int \<Rightarrow> int list \<Rightarrow> int list option" where
  "pathTo_loop et from to path =
     (if to \<noteq> from \<and> et to \<noteq> None
      then pathTo_loop et from (the (et to)) (path @ [to])
      else Some (path @ [from]))"

declare pathTo_loop.simps [code]

definition pathTo :: "force \<Rightarrow> int \<Rightarrow> int \<Rightarrow> int list option" where
  "pathTo s from to = pathTo_loop (edgeTo s) from to []"

text \<open>
  \<^verbatim>\<open>shortestPath\<close>. Its \<^verbatim>\<open>forEach\<close> visits the path as \<^verbatim>\<open>pathTo\<close> returned it;
  \<open>prev\<close> is \<^verbatim>\<open>path[i - 1]\<close>, absent at \<open>i = 0\<close>. Reading \<^verbatim>\<open>adjList[v][prev][0]\<close>
  throws when \<^verbatim>\<open>adjList[v]\<close> or \<^verbatim>\<open>adjList[v][prev]\<close> is missing.
\<close>

record path_result =
  vertexIds :: "jsid list"
  edgeIds :: "jsid list"

fun path_each :: "force \<Rightarrow> int option \<Rightarrow> int list \<Rightarrow> path_result \<Rightarrow> error + path_result" where
  "path_each s prev [] r = Inr r"
| "path_each s prev (v # rest) r =
     (let r1 = r\<lparr> vertexIds := vertexIds r @ [array_get (vertexesMap s) v] \<rparr> in
      case prev of
        None \<Rightarrow> path_each s (Some v) rest r1
      | Some p \<Rightarrow>
          (case map_of (adjList s) v of
             None \<Rightarrow> Inl TypeError
           | Some obj \<Rightarrow>
               (case map_of obj p of
                  None \<Rightarrow> Inl TypeError
                | Some ids \<Rightarrow>
                    path_each s (Some v) rest
                      (r1\<lparr> edgeIds := edgeIds r1 @ [array_get ids 0] \<rparr>))))"

definition shortestPath :: "force \<Rightarrow> string \<Rightarrow> string \<Rightarrow> (force \<times> (error + path_result)) option" where
  "shortestPath s source target =
     (let from = indexOf (vertexesMap s) source;
          to = indexOf (vertexesMap s) target;
          s' = bfs s from
      in case pathTo s' from to of
           None \<Rightarrow> None
         | Some path \<Rightarrow>
             Some (s', if length path \<le> 1
                       then Inr \<lparr> vertexIds = [Id target], edgeIds = [] \<rparr>
                       else path_each s' None path \<lparr> vertexIds = [], edgeIds = [] \<rparr>))"

section \<open>Neighbourhood queries\<close>

text \<open>
  \<^verbatim>\<open>radiationVertex(d)\<close> pushes, for every working edge that starts at \<open>d\<close>, the
  edge's target and the edge's id. \<^verbatim>\<open>relationVertex(d)\<close> pushes both endpoints of
  every working edge incident to \<open>d\<close> and passes the vertex ids through a \<^verbatim>\<open>Set\<close>.
\<close>

fun radiation_each :: "string \<Rightarrow> edge list \<Rightarrow> path_result \<Rightarrow> path_result" where
  "radiation_each d [] r = r"
| "radiation_each d (e # es) r =
     radiation_each d es
       (if e_from e = d
        then r\<lparr> vertexIds := vertexIds r @ [Id (e_to e)], edgeIds := edgeIds r @ [Id (e_id e)] \<rparr>
        else r)"

definition radiationVertex :: "force \<Rightarrow> string \<Rightarrow> path_result" where
  "radiationVertex s d =
     radiation_each d (edge_values s (edges s)) \<lparr> vertexIds = [Id d], edgeIds = [] \<rparr>"

definition getHighlightIds :: "force \<Rightarrow> string \<Rightarrow> path_result" where
  "getHighlightIds s d = radiationVertex s d"

fun relation_each :: "string \<Rightarrow> edge list \<Rightarrow> path_result \<Rightarrow> path_result" where
  "relation_each d [] r = r"
| "relation_each d (e # es) r =
     relation_each d es
       (if e_from e = d \<or> e_to e = d
        then r\<lparr> vertexIds := vertexIds r @ [Id (e_to e), Id (e_from e)],
                edgeIds := edgeIds r @ [Id (e_id e)] \<rparr>
        else r)"

definition relationVertex :: "force \<Rightarrow> string \<Rightarrow> path_result" where
  "relationVertex s d =
     (let r = relation_each d (edge_values s (edges s)) \<lparr> vertexIds = [Id d], edgeIds = [] \<rparr>
      in r\<lparr> vertexIds := array_from_set (vertexIds r) \<rparr>)"

section \<open>Filtering and reset\<close>

text \<open>
  \<^verbatim>\<open>filterVertex(filter, isRaw)\<close> and \<^verbatim>\<open>filterEdge(filter, isRaw)\<close>. The callback
  receives the element, its index and the array. The check that \<^verbatim>\<open>filter\<close> is a
  function is the type of the argument. With \<^verbatim>\<open>isRaw\<close> the arrays of
  \<^verbatim>\<open>this.data\<close> are filtered, otherwise the working arrays; \<^verbatim>\<open>Array.filter\<close> makes
  a new array of the same objects. Both end with \<^verbatim>\<open>preprocessData\<close>.
\<close>

definition filterVertex :: "(vertex \<Rightarrow> nat \<Rightarrow> vertex list \<Rightarrow> bool) \<Rightarrow> bool \<Rightarrow> force \<Rightarrow> force" where
  "filterVertex filter_fn isRaw s =
     (let vertexes0 = (if isRaw then data_vertexes s else vertexes s);
          edges0 = (if isRaw then data_edges s else edges s);
          g = vertex_values s vertexes0;
          filterIds = map (\<lambda>(i, d). v_id d) (filter (\<lambda>(i, d). filter_fn d i g) (enumerate 0 g));
          edges1 = filter (\<lambda>a. e_from (eheap s a) \<in> set filterIds \<or> e_to (eheap s a) \<in> set filterIds) edges0;
          vertexIds0 = array_from_set (concat (map (\<lambda>a. [e_to (eheap s a), e_from (eheap s a)]) edges1));
          vertexes1 = filter (\<lambda>a. v_id (vheap s a) \<in> set vertexIds0) vertexes0
      in preprocessData (s\<lparr> edges := edges1, vertexes := vertexes1 \<rparr>))"

definition filterEdge :: "(edge \<Rightarrow> nat \<Rightarrow> edge list \<Rightarrow> bool) \<Rightarrow> bool \<Rightarrow> force \<Rightarrow> force" where
  "filterEdge filter_fn isRaw s =
     (let vertexes0 = (if isRaw then data_vertexes s else vertexes s);
          edges0 = (if isRaw then data_edges s else edges s);
          g = edge_values s edges0;
          edges1 = map snd (filter (\<lambda>(i, a). filter_fn (eheap s a) i g) (enumerate 0 edges0));
          vertexIds0 = array_from_set (concat (map (\<lambda>a. [e_from (eheap s a), e_to (eheap s a)]) edges1));
          vertexes1 = filter (\<lambda>a. v_id (vheap s a) \<in> set vertexIds0) vertexes0
      in preprocessData (s\<lparr> edges := edges1, vertexes := vertexes1 \<rparr>))"

definition resetData :: "force \<Rightarrow> force" where
  "resetData s = s\<lparr> vertexes := data_vertexes s, edges := data_edges s \<rparr>"

section \<open>Edge geometry on a simulation tick\<close>

text \<open>
  What the \<^verbatim>\<open>onTick\<close> callback reads from an edge datum \<open>d\<close>: the simulator has
  replaced \<^verbatim>\<open>d.source\<close> and \<^verbatim>\<open>d.target\<close> by the vertex objects, which carry the
  positions \<^verbatim>\<open>x\<close>, \<^verbatim>\<open>y\<close>. JavaScript numbers are modelled as real numbers, and
  the callback is modelled for an edge datum whose three multiplicity fields are
  numbers. The path string \<^verbatim>\<open>M sx,sy A dr,dr 0 0 sweepFlag,tx,ty\<close> is kept as its
  numbers.
\<close>

record node =
  n_id :: string
  n_name :: "string option"
  n_x :: real
  n_y :: real

record link =
  l_source :: node
  l_target :: node
  l_edgeIndex :: nat
  l_siblingNum :: nat
  l_labelDirection :: nat

datatype svg_path =
  Arc real real real int real real
| Cubic real real real real real real real real

definition middleIdx :: "link \<Rightarrow> real" where
  "middleIdx d = (real (l_siblingNum d) + 1) / 2"

text \<open>
  The radius. For the edge index \<open>0\<close> the summand \<^verbatim>\<open>1 / (10 * 0)\<close> is
  \<^verbatim>\<open>Infinity\<close>, and so is the divisor, which makes the quotient \<open>0\<close>.
\<close>

definition arc_dr :: "link \<Rightarrow> real" where
  "arc_dr d =
     (let dx = n_x (l_target d) - n_x (l_source d);
          dy = n_y (l_target d) - n_y (l_source d);
          dr = (if l_siblingNum d > 1 then sqrt (dx * dx + dy * dy) else 0)
      in if l_siblingNum d > 1
         then (if real (l_edgeIndex d) = middleIdx d then 0
               else if l_edgeIndex d = 0 then 0
               else dr / (ln (\<bar>real (l_edgeIndex d) - middleIdx d\<bar> * 0.7 + 1)
                          + 1 / (10 * (real (l_edgeIndex d))\<^sup>2)))
         else dr)"

definition arc_sweepFlag :: "link \<Rightarrow> int" where
  "arc_sweepFlag d =
     (let sweepFlag = (if real (l_edgeIndex d) > middleIdx d then 1 else 0)
      in if l_labelDirection d \<noteq> 0 then 1 - sweepFlag else sweepFlag)"

text \<open>
  The callback for one edge: the forward path, the reverse path written to the element
  \<^verbatim>\<open>#<id>_reverse\<close>, and the self-loop counter \<^verbatim>\<open>selfMap\<close>, a plain object keyed
  by the name of the source vertex (a missing name is the key \<^verbatim>\<open>undefined\<close>). \<open>r\<close> is
  \<^verbatim>\<open>getRadius(d)\<close>, the option \<^verbatim>\<open>r\<close>. The forward path of a self-loop is \<open>None\<close>
  when the counter read back is no number: its control points are \<^verbatim>\<open>NaN\<close> then.
\<close>

definition name_key :: "string option \<Rightarrow> string" where
  "name_key n = (case n of None \<Rightarrow> ''undefined'' | Some x \<Rightarrow> x)"

definition edge_path ::
  "real \<Rightarrow> (string \<rightharpoonup> jsval) \<Rightarrow> link \<Rightarrow> svg_path option \<times> svg_path \<times> (string \<rightharpoonup> jsval)" where
  "edge_path r selfMap d =
     (let sx = n_x (l_source d); sy = n_y (l_source d);
          tx = n_x (l_target d); ty = n_y (l_target d);
          dr = arc_dr d;
          sweepFlag = arc_sweepFlag d;
          reverse = Arc tx ty dr (1 - sweepFlag) sx sy
      in if n_id (l_source d) = n_id (l_target d)
         then (let k = name_key (n_name (l_source d));
                   old = prop_get selfMap k;
                   selfMap' = prop_set selfMap k
                     (if truthy old then (case old of Number c \<Rightarrow> Number (c + 1) | _ \<Rightarrow> Text)
                      else Number 1)
               in ((case prop_get selfMap' k of
                      Number n \<Rightarrow>
                        Some (Cubic sx (sy - r) (sx - real n * 10) (sy - real n * 100)
                                    (sx + real n * 100) (sy + real n * 10) (sx + r) sy)
                    | _ \<Rightarrow> None),
                   reverse, selfMap'))
         else (Some (Arc sx sy dr sweepFlag tx ty), reverse, selfMap))"

text \<open>
  The edge datum of a preprocessed edge, once the simulator has placed its endpoints;
  \<open>None\<close> when a multiplicity field is no number.
\<close>

definition link_of :: "edge \<Rightarrow> node \<Rightarrow> node \<Rightarrow> link option" where
  "link_of e src tgt =
     (case (edgeIndex e, siblingNum e, labelDirection e) of
        (Number i, Number k, Number l) \<Rightarrow>
          Some \<lparr> l_source = src, l_target = tgt,
                 l_edgeIndex = i, l_siblingNum = k, l_labelDirection = l \<rparr>
      | _ \<Rightarrow> None)"

section \<open>Zooming\<close>

text \<open>
  A zoom transform is a scale \<open>k\<close> and a translation \<open>(x, y)\<close>; \<^verbatim>\<open>translate\<close> and
  \<^verbatim>\<open>scale\<close> are those of the zoom library's transform objects. \<^verbatim>\<open>zoomTo(scale)\<close>
  returns early, or hands a transform to \<^verbatim>\<open>transformTo\<close>, whose transition ends with
  that transform as the current one. JavaScript numbers are modelled as real numbers;
  the quotient by the current scale is a number as long as that scale is not \<open>0\<close>.
\<close>

record transform =
  t_k :: real
  t_x :: real
  t_y :: real

definition zoomIdentity :: transform where
  "zoomIdentity = \<lparr> t_k = 1, t_x = 0, t_y = 0 \<rparr>"

definition translate :: "transform \<Rightarrow> real \<Rightarrow> real \<Rightarrow> transform" where
  "translate t x y = \<lparr> t_k = t_k t, t_x = t_x t + t_k t * x, t_y = t_y t + t_k t * y \<rparr>"

definition scale :: "transform \<Rightarrow> real \<Rightarrow> transform" where
  "scale t k = \<lparr> t_k = t_k t * k, t_x = t_x t, t_y = t_y t \<rparr>"

record viewport =
  current :: transform
  scaleExtent :: "real \<times> real"
  rect_width :: real
  rect_height :: real

definition zoomTo_target :: "viewport \<Rightarrow> real \<Rightarrow> transform option" where
  "zoomTo_target vp sc =
     (let curK = t_k (current vp) in
      if (sc - curK > 0 \<and> curK = snd (scaleExtent vp)) \<or> (sc - curK < 0 \<and> curK = fst (scaleExtent vp))
      then None
      else
        (let nextK = (if sc < fst (scaleExtent vp) then fst (scaleExtent vp)
                      else if sc > snd (scaleExtent vp) then snd (scaleExtent vp) else sc);
             centerX = rect_width vp / 2;
             centerY = rect_height vp / 2;
             curX = t_x (current vp);
             curY = t_y (current vp);
             nextX = centerX - ((centerX - curX) / curK) * nextK;
             nextY = centerY - ((centerY - curY) / curK) * nextK
         in Some (scale (translate zoomIdentity nextX nextY) nextK)))"

definition transformTo :: "viewport \<Rightarrow> transform \<Rightarrow> viewport" where
  "transformTo vp t = vp\<lparr> current := t \<rparr>"

definition zoomTo :: "viewport \<Rightarrow> real \<Rightarrow> viewport" where
  "zoomTo vp sc = (case zoomTo_target vp sc of None \<Rightarrow> vp | Some t \<Rightarrow> transformTo vp t)"

section \<open>Example inputs\<close>

text \<open>The input objects \<^verbatim>\<open>{_id: i}\<close> and \<^verbatim>\<open>{_id: i, _from: f, _to: t}\<close>.\<close>

definition vertex_of :: "string \<Rightarrow> vertex" where
  "vertex_of i = \<lparr> v_id = i, v_type = None, v_name = None, v_state = None \<rparr>"

definition edge_of :: "string \<Rightarrow> string \<Rightarrow> string \<Rightarrow> edge" where
  "edge_of i f t =
     \<lparr> e_id = i, e_from = f, e_to = t, e_state = None, e_source = None, e_target = None,
       edgeIndex = Undef, siblingNum = Undef, labelDirection = Undef \<rparr>"

text \<open>The chain \<open>A \<rightarrow> B \<rightarrow> C\<close> with the edges \<open>e1\<close> and \<open>e2\<close>, constructed and preprocessed.\<close>

definition chain_graph :: force where
  "chain_graph =
     preprocessData (Force_new [vertex_of ''A'', vertex_of ''B'', vertex_of ''C'']
                               [edge_of ''e1'' ''A'' ''B'', edge_of ''e2'' ''B'' ''C''])"

text \<open>The state an instance is in once the call \<^verbatim>\<open>shortestPath(a, b)\<close> has returned.\<close>

definition after_query :: "force \<Rightarrow> string \<Rightarrow> string \<Rightarrow> force" where
  "after_query s a b = (case shortestPath s a b of None \<Rightarrow> s | Some (s', r) \<Rightarrow> s')"

text \<open>The edge \<open>A \<rightarrow> B\<close> and a vertex \<open>C\<close> without edges.\<close>

definition lone_graph :: force where
  "lone_graph =
     preprocessData (Force_new [vertex_of ''A'', vertex_of ''B'', vertex_of ''C'']
                               [edge_of ''e1'' ''A'' ''B''])"

text \<open>The cycle \<open>A \<rightarrow> B \<rightarrow> A\<close> and a vertex \<open>C\<close> without edges.\<close>

definition cycle_graph :: force where
  "cycle_graph =
     preprocessData (Force_new [vertex_of ''A'', vertex_of ''B'', vertex_of ''C'']
                               [edge_of ''e1'' ''A'' ''B'', edge_of ''e2'' ''B'' ''A''])"

text \<open>
  The triangle \<open>A \<rightarrow> B \<rightarrow> C\<close>, \<open>A \<rightarrow> C\<close>, preprocessed, and the same instance after
  \<^verbatim>\<open>filterEdge(e => e._id !== 'e3')\<close> on the working set.
\<close>

definition triangle_graph :: force where
  "triangle_graph =
     preprocessData (Force_new [vertex_of ''A'', vertex_of ''B'', vertex_of ''C'']
        [edge_of ''e1'' ''A'' ''B'', edge_of ''e2'' ''B'' ''C'', edge_of ''e3'' ''A'' ''C''])"

definition triangle_filtered :: force where
  "triangle_filtered = filterEdge (\<lambda>d i g. e_id d \<noteq> ''e3'') False triangle_graph"

text \<open>One vertex with two self-loops.\<close>

definition loops_graph :: force where
  "loops_graph =
     preprocessData (Force_new [vertex_of ''A'']
                               [edge_of ''e1'' ''A'' ''A'', edge_of ''e2'' ''A'' ''A''])"

text \<open>
  The edge \<open>A \<rightarrow> B\<close>: the instance as constructed, and after
  \<^verbatim>\<open>filterVertex(() => true, true)\<close> followed by \<^verbatim>\<open>resetData()\<close>.
\<close>

definition pair_input_vertexes :: "vertex list" where
  "pair_input_vertexes = [vertex_of ''A'', vertex_of ''B'']"

definition pair_input_edges :: "edge list" where
  "pair_input_edges = [edge_of ''e1'' ''A'' ''B'']"

definition reset_example :: force where
  "reset_example =
     resetData (filterVertex (\<lambda>d i g. True) True (Force_new pair_input_vertexes pair_input_edges))"

text \<open>
  Two edges between \<open>A\<close> and \<open>B\<close>, preprocessed: both from \<open>A\<close> to \<open>B\<close>, and one in
  each direction. \<open>node_at\<close> is a vertex object as the simulator has placed it.
\<close>

definition parallel_graph :: force where
  "parallel_graph =
     preprocessData (Force_new [vertex_of ''A'', vertex_of ''B'']
                               [edge_of ''e1'' ''A'' ''B'', edge_of ''e2'' ''A'' ''B''])"

definition parallel_e1 :: edge where
  "parallel_e1 = edge_values parallel_graph (edges parallel_graph) ! 0"

definition parallel_e2 :: edge where
  "parallel_e2 = edge_values parallel_graph (edges parallel_graph) ! 1"

definition opposite_graph :: force where
  "opposite_graph =
     preprocessData (Force_new [vertex_of ''A'', vertex_of ''B'']
                               [edge_of ''e1'' ''A'' ''B'', edge_of ''e2'' ''B'' ''A''])"

definition opposite_e2 :: edge where
  "opposite_e2 = edge_values opposite_graph (edges opposite_graph) ! 1"

definition node_at :: "string \<Rightarrow> real \<Rightarrow> real \<Rightarrow> node" where
  "node_at i x y = \<lparr> n_id = i, n_name = None, n_x = x, n_y = y \<rparr>"

text \<open>
  The sweep flag in the words of the specification: \<open>1\<close> if the edge index is above the
  middle index, else \<open>0\<close>, inverted when the pair's canonical direction (the endpoint
  first met as \<^verbatim>\<open>_from\<close>) is reversed relative to the edge.
\<close>

definition spec_sweepFlag :: "string \<Rightarrow> string \<Rightarrow> nat \<Rightarrow> nat \<Rightarrow> int" where
  "spec_sweepFlag canonical_from edge_from idx sib =
     (let base = (if real idx > (real sib + 1) / 2 then 1 else 0)
      in if canonical_from \<noteq> edge_from then 1 - base else base)"

text \<open>A viewport with the default scale extent, zoomed to \<open>1\<close>.\<close>

definition view0 :: viewport where
  "view0 = \<lparr> current = \<lparr> t_k = 1, t_x = 10, t_y = 20 \<rparr>, scaleExtent = (1 / 2, 2),
             rect_width = 800, rect_height = 600 \<rparr>"

text \<open>
  Auxiliary notions for preprocessing. What it writes to one vertex and to one edge; a
  function applied to the objects at the addresses of an array; an edge without its
  index; and the effect of \<^verbatim>\<open>setEdgeIndex\<close> on the edge store.
\<close>

definition vertex_default :: "vertex \<Rightarrow> vertex" where
  "vertex_default v = v\<lparr> v_state := Some (state_or_normal (v_state v)) \<rparr>"

definition edge_default :: "edge \<Rightarrow> edge" where
  "edge_default e = e\<lparr> e_source := Some (e_from e), e_target := Some (e_to e),
                        e_state := Some (state_or_normal (e_state e)) \<rparr>"

definition sibling_fields :: "(string \<rightharpoonup> jsval) \<Rightarrow> (string \<rightharpoonup> string) \<Rightarrow> edge \<Rightarrow> edge" where
  "sibling_fields num dir e =
     e\<lparr> siblingNum := prop_get num (e_from e @ e_to e),
        labelDirection := Number (if dir (e_from e @ e_to e) = Some (e_from e) then 1 else 0) \<rparr>"

definition on_addresses :: "nat list \<Rightarrow> ('a \<Rightarrow> 'a) \<Rightarrow> (nat \<Rightarrow> 'a) \<Rightarrow> (nat \<Rightarrow> 'a)" where
  "on_addresses as f h = (\<lambda>a. if a \<in> set as then f (h a) else h a)"

definition no_index :: "edge \<Rightarrow> edge" where
  "no_index e = e\<lparr> edgeIndex := Undef \<rparr>"

definition edge_index_heap :: "nat list \<Rightarrow> (nat \<Rightarrow> edge) \<Rightarrow> (nat \<Rightarrow> edge)" where
  "edge_index_heap as h =
     (case edgeIndex_pass as Map.empty Map.empty h of
        (num, dir, h') \<Rightarrow> sibling_pass as num dir h')"

text \<open>
  Reachability in the adjacency index: \<open>(u, v)\<close> is a step when \<^verbatim>\<open>adjList[u]\<close> has the
  key \<open>v\<close>.
\<close>

definition adj_step :: "(int \<times> adj_obj) list \<Rightarrow> (int \<times> int) set" where
  "adj_step adj = {(u, v). \<exists>obj. map_of adj u = Some obj \<and> v \<in> fst ` set obj}"

text \<open>
  Auxiliary notions for \<^verbatim>\<open>setEdgeIndex\<close>. The endpoint pair of an edge; a counter key
  \<open>k\<close> is touched by a pair whose concatenation, in one order or the other, is \<open>k\<close>;
  the counter and the recorded direction after a list of pairs; and the conditions on
  the concatenated keys under which the counter counts pairs.
\<close>

definition edge_key :: "edge \<Rightarrow> string \<times> string" where
  "edge_key e = (e_from e, e_to e)"

definition touches :: "string \<Rightarrow> string \<times> string \<Rightarrow> bool" where
  "touches k p = (fst p @ snd p = k \<or> snd p @ fst p = k)"

definition cnt :: "(string \<times> string) list \<Rightarrow> string \<Rightarrow> nat" where
  "cnt ps k = length (filter (touches k) ps)"

definition counted :: "(string \<times> string) list \<Rightarrow> (string \<rightharpoonup> jsval)" where
  "counted ps = (\<lambda>k. if cnt ps k = 0 then None else Some (Number (cnt ps k)))"

definition first_from :: "(string \<times> string) list \<Rightarrow> (string \<rightharpoonup> string)" where
  "first_from ps = (\<lambda>k. map_option fst (find (touches k) ps))"

definition keys_ok :: "(string \<times> string) list \<Rightarrow> bool" where
  "keys_ok ps =
     ((\<forall>p \<in> set ps. fst p @ snd p \<noteq> snd p @ fst p)
      \<and> (\<forall>p \<in> set ps. fst p @ snd p \<notin> set object_prototype_names
                        \<and> snd p @ fst p \<notin> set object_prototype_names)
      \<and> (\<forall>p \<in> set ps. \<forall>p' \<in> set ps.
            (fst p' @ snd p' = fst p @ snd p \<longleftrightarrow> snd p' @ fst p' = snd p @ fst p)
          \<and> (fst p' @ snd p' = snd p @ fst p \<longleftrightarrow> snd p' @ fst p' = fst p @ snd p)))"

text \<open>
  The working edges between the two endpoints of the edge at \<open>a\<close>, in the order of the
  working array; their number; the position among them of the edge at index \<open>i\<close> of
  the array, counted from \<open>1\<close>; and whether an edge starts where the first of them
  starts, which is the direction first met for the pair.
\<close>

definition same_pair :: "(nat \<Rightarrow> edge) \<Rightarrow> nat \<Rightarrow> nat \<Rightarrow> bool" where
  "same_pair h a b =
     ((e_from (h b) = e_from (h a) \<and> e_to (h b) = e_to (h a))
      \<or> (e_from (h b) = e_to (h a) \<and> e_to (h b) = e_from (h a)))"

definition siblings :: "(nat \<Rightarrow> edge) \<Rightarrow> nat list \<Rightarrow> nat \<Rightarrow> nat list" where
  "siblings h as a = filter (same_pair h a) as"

definition sibling_count :: "(nat \<Rightarrow> edge) \<Rightarrow> nat list \<Rightarrow> nat \<Rightarrow> nat" where
  "sibling_count h as a = length (siblings h as a)"

definition sibling_rank :: "(nat \<Rightarrow> edge) \<Rightarrow> nat list \<Rightarrow> nat \<Rightarrow> nat" where
  "sibling_rank h as i = Suc (length (siblings h (take i as) (as ! i)))"

definition runs_first_met :: "(nat \<Rightarrow> edge) \<Rightarrow> nat list \<Rightarrow> nat \<Rightarrow> bool" where
  "runs_first_met h as a = (e_from (h a) = e_from (h (hd (siblings h as a))))"

text \<open>
  The condition on the endpoint ids of the working edges: no self-loop, the
  concatenation of two ids determines the two ids, and no concatenation is the name of
  a member of \<^verbatim>\<open>Object.prototype\<close>.
\<close>

definition pairs_ok :: "(nat \<Rightarrow> edge) \<Rightarrow> nat list \<Rightarrow> bool" where
  "pairs_ok h as =
     ((\<forall>a \<in> set as. e_from (h a) \<noteq> e_to (h a))
      \<and> (\<forall>a \<in> set as. e_from (h a) @ e_to (h a) \<notin> set object_prototype_names
                        \<and> e_to (h a) @ e_from (h a) \<notin> set object_prototype_names)
      \<and> inj_on (\<lambda>(f, t). f @ t)
           ((\<lambda>a. (e_from (h a), e_to (h a))) ` set as \<union> (\<lambda>a. (e_to (h a), e_from (h a))) ` set as))"

text \<open>
  The adjacency index as a function of the ordinal map and of the id, source and target
  of the edges; and an instance that holds nothing but an index.
\<close>

definition edge_triple :: "edge \<Rightarrow> string \<times> string \<times> string" where
  "edge_triple e = (e_id e, e_from e, e_to e)"

fun adj_of :: "string list \<Rightarrow> (int \<times> adj_obj) list \<Rightarrow> (string \<times> string \<times> string) list
    \<Rightarrow> (int \<times> adj_obj) list" where
  "adj_of vm adj [] = adj"
| "adj_of vm adj ((i, f, t) # es) = adj_of vm (adj_push adj (indexOf vm f) (indexOf vm t) i) es"

definition index_state :: "string list \<Rightarrow> (int \<times> adj_obj) list \<Rightarrow> force" where
  "index_state vm adj =
     \<lparr> vheap = (\<lambda>a. vertex_of []), eheap = (\<lambda>a. edge_of [] [] []),
       data_vertexes = [], data_edges = [], rawData_vertexes = [], rawData_edges = [],
       vertexes = [], edges = [], vertexesMap = vm, adjList = adj,
       edgeTo = Map.empty, marker = Map.empty \<rparr>"

text \<open>
  The predicate \<^verbatim>\<open>v => v.state === undefined\<close>; the edge \<open>A \<rightarrow> B\<close> constructed and
  preprocessed; and that instance after one and after two calls of
  \<^verbatim>\<open>filterVertex(v => v.state === undefined, true)\<close>.
\<close>

definition missing_state :: "vertex \<Rightarrow> nat \<Rightarrow> vertex list \<Rightarrow> bool" where
  "missing_state d i g = (v_state d = None)"

definition pair_graph :: force where
  "pair_graph = preprocessData (Force_new pair_input_vertexes pair_input_edges)"

definition raw_once :: force where
  "raw_once = filterVertex missing_state True pair_graph"

definition raw_twice :: force where
  "raw_twice = filterVertex missing_state True raw_once"

text \<open>
  Two edges from \<open>A\<close> to \<open>B\<close> as constructed, before preprocessing; the working edge
  objects are at the addresses \<open>4\<close> and \<open>5\<close>.
\<close>

definition parallel_input :: force where
  "parallel_input =
     Force_new [vertex_of ''A'', vertex_of ''B'']
               [edge_of ''e1'' ''A'' ''B'', edge_of ''e2'' ''A'' ''B'']"

text \<open>
  Three edges from \<open>A\<close> to \<open>BC\<close> and, met third, one from \<open>C\<close> to \<open>AB\<close>: the
  concatenations \<open>A + BC\<close> and \<open>AB + C\<close> are the same key. And two edges from
  \<open>to\<close> to \<open>String\<close>, whose concatenation names a member of
  \<^verbatim>\<open>Object.prototype\<close>.
\<close>

definition collision_graph :: force where
  "collision_graph =
     preprocessData (Force_new [vertex_of ''A'', vertex_of ''BC'', vertex_of ''C'', vertex_of ''AB'']
        [edge_of ''e1'' ''A'' ''BC'', edge_of ''e2'' ''A'' ''BC'', edge_of ''e3'' ''C'' ''AB'',
         edge_of ''e4'' ''A'' ''BC''])"

definition member_graph :: force where
  "member_graph =
     preprocessData (Force_new [vertex_of ''to'', vertex_of ''String'']
        [edge_of ''e1'' ''to'' ''String'', edge_of ''e2'' ''to'' ''String''])"

lemmas model_defs =
  preprocessData_def Force_new_def vertex_of_def edge_of_def Let_def indexOf_def
  setEdgeIndex_def layout_def shortestPath_def bfs_def pathTo_def pathTo_loop.simps
  object_keys_def marked_def array_get_def state_or_normal_def truthy_def incr_def
  prop_get_def prop_set_def count_edge_def record_direction_def adj_push_def

section \<open>What preprocessing reads and writes\<close>

text \<open>
  Each loop of \<^verbatim>\<open>preprocessData\<close> applies one function to the objects at the
  addresses of the working array and leaves every other object alone; the ordinal map
  and the adjacency index are extended, never reset.
\<close>

lemma state_or_normal_idem [simp]:
  "state_or_normal (Some (state_or_normal st)) = state_or_normal st"
  by (simp add: state_or_normal_def split: option.splits)

lemma preprocess_vertexes_fields:
  "vheap (preprocess_vertexes as s) = on_addresses as vertex_default (vheap s)
   \<and> eheap (preprocess_vertexes as s) = eheap s
   \<and> vertexes (preprocess_vertexes as s) = vertexes s
   \<and> edges (preprocess_vertexes as s) = edges s
   \<and> data_vertexes (preprocess_vertexes as s) = data_vertexes s
   \<and> data_edges (preprocess_vertexes as s) = data_edges s"
proof (induction as arbitrary: s)
  case Nil
  then show ?case by (simp add: on_addresses_def)
next
  case (Cons a as)
  show ?case
    by (auto simp: Cons.IH Let_def on_addresses_def fun_eq_iff vertex_default_def)
qed

lemma preprocess_edges_fields:
  "eheap (preprocess_edges as s) = on_addresses as edge_default (eheap s)
   \<and> vheap (preprocess_edges as s) = vheap s
   \<and> vertexes (preprocess_edges as s) = vertexes s
   \<and> edges (preprocess_edges as s) = edges s
   \<and> data_vertexes (preprocess_edges as s) = data_vertexes s
   \<and> data_edges (preprocess_edges as s) = data_edges s"
proof (induction as arbitrary: s)
  case Nil
  then show ?case by (simp add: on_addresses_def)
next
  case (Cons a as)
  show ?case
    by (auto simp: Cons.IH Let_def on_addresses_def fun_eq_iff edge_default_def)
qed

lemma sibling_pass_eq:
  "sibling_pass as num dir h = on_addresses as (sibling_fields num dir) h"
proof (induction as arbitrary: h)
  case Nil
  then show ?case by (simp add: on_addresses_def)
next
  case (Cons a as)
  show ?case
    by (auto simp: Cons.IH Let_def on_addresses_def fun_eq_iff sibling_fields_def)
qed

lemma no_index_update [simp]: "no_index (e\<lparr> edgeIndex := x \<rparr>) = no_index e"
  by (simp add: no_index_def)

lemma no_index_eqD:
  assumes "no_index e = no_index e'"
  shows "e_from e = e_from e'" "e_to e = e_to e'" "e\<lparr> edgeIndex := x \<rparr> = e'\<lparr> edgeIndex := x \<rparr>"
proof -
  from assms have eq: "e\<lparr> edgeIndex := Undef \<rparr> = e'\<lparr> edgeIndex := Undef \<rparr>"
    by (simp add: no_index_def)
  from arg_cong [OF eq, of e_from] show "e_from e = e_from e'" by simp
  from arg_cong [OF eq, of e_to] show "e_to e = e_to e'" by simp
  from arg_cong [OF eq, of "\<lambda>r. r\<lparr> edgeIndex := x \<rparr>"] show "e\<lparr> edgeIndex := x \<rparr> = e'\<lparr> edgeIndex := x \<rparr>" by simp
qed

lemma edgeIndex_pass_frame:
  "edgeIndex_pass as num dir h = (num', dir', h') \<Longrightarrow>
     no_index (h' a) = no_index (h a) \<and> (a \<notin> set as \<longrightarrow> h' a = h a)"
proof (induction as arbitrary: num dir h)
  case Nil
  then show ?case by simp
next
  case (Cons b as)
  define num1 where "num1 = count_edge num (h b)"
  define dir1 where "dir1 = record_direction num dir (h b)"
  define h1 where "h1 = h(b := (h b)\<lparr> edgeIndex := prop_get num1 (e_from (h b) @ e_to (h b)) \<rparr>)"
  from Cons.prems have "edgeIndex_pass as num1 dir1 h1 = (num', dir', h')"
    by (simp add: Let_def num1_def dir1_def h1_def)
  from Cons.IH [OF this] have "no_index (h' a) = no_index (h1 a)" and "a \<notin> set as \<longrightarrow> h' a = h1 a"
    by blast+
  then show ?case
    by (auto simp: h1_def)
qed

lemma setEdgeIndex_fields:
  "eheap (setEdgeIndex s) = edge_index_heap (edges s) (eheap s)
   \<and> vheap (setEdgeIndex s) = vheap s
   \<and> vertexes (setEdgeIndex s) = vertexes s
   \<and> edges (setEdgeIndex s) = edges s
   \<and> data_vertexes (setEdgeIndex s) = data_vertexes s
   \<and> data_edges (setEdgeIndex s) = data_edges s"
  by (simp add: setEdgeIndex_def edge_index_heap_def split: prod.splits)

lemma preprocessData_fields:
  "vertexes (preprocessData s) = vertexes s
   \<and> edges (preprocessData s) = edges s
   \<and> data_vertexes (preprocessData s) = data_vertexes s
   \<and> data_edges (preprocessData s) = data_edges s
   \<and> vheap (preprocessData s) = on_addresses (vertexes s) vertex_default (vheap s)
   \<and> eheap (preprocessData s)
       = edge_index_heap (edges s) (on_addresses (edges s) edge_default (eheap s))"
  by (simp add: preprocessData_def Let_def layout_def setEdgeIndex_fields
      preprocess_edges_fields preprocess_vertexes_fields)

lemma preprocess_vertexes_vertexesMap:
  "vertexesMap (preprocess_vertexes as s) = vertexesMap s @ map (\<lambda>a. v_id (vheap s a)) as"
proof (induction as arbitrary: s)
  case Nil
  then show ?case by simp
next
  case (Cons a as)
  show ?case
    by (simp add: Cons.IH Let_def)
qed

lemma preprocess_edges_vertexesMap:
  "vertexesMap (preprocess_edges as s) = vertexesMap s"
  by (induction as arbitrary: s) (simp_all add: Let_def)

lemma setEdgeIndex_vertexesMap: "vertexesMap (setEdgeIndex s) = vertexesMap s"
  by (simp add: setEdgeIndex_def split: prod.splits)

lemma preprocessData_vertexesMap:
  "vertexesMap (preprocessData s) = vertexesMap s @ map (\<lambda>a. v_id (vheap s a)) (vertexes s)"
  by (simp add: preprocessData_def Let_def layout_def setEdgeIndex_vertexesMap
      preprocess_edges_vertexesMap preprocess_vertexes_vertexesMap preprocess_vertexes_fields)

lemma filterEdge_vertexesMap:
  "vertexesMap (filterEdge f isRaw s)
     = vertexesMap s @ map (\<lambda>a. v_id (vheap s a)) (vertexes (filterEdge f isRaw s))"
  by (simp add: filterEdge_def Let_def preprocessData_vertexesMap preprocessData_fields)

lemma filterVertex_vertexesMap:
  "vertexesMap (filterVertex f isRaw s)
     = vertexesMap s @ map (\<lambda>a. v_id (vheap s a)) (vertexes (filterVertex f isRaw s))"
  by (simp add: filterVertex_def Let_def preprocessData_vertexesMap preprocessData_fields)

lemma edge_triple_update:
  "edge_triple (if b = a then e\<lparr> e_source := x, e_target := y, e_state := z \<rparr> else h b)
     = edge_triple (if b = a then e else h b)"
  by (simp add: edge_triple_def)

lemma adj_of_Cons:
  "adj_of vm adj (edge_triple e # es)
     = adj_of vm (adj_push adj (indexOf vm (e_from e)) (indexOf vm (e_to e)) (e_id e)) es"
  by (simp add: edge_triple_def)

lemma preprocess_edges_adjList:
  "adjList (preprocess_edges as s)
     = adj_of (vertexesMap s) (adjList s) (map (\<lambda>a. edge_triple (eheap s a)) as)"
proof (induction as arbitrary: s)
  case Nil
  then show ?case by simp
next
  case (Cons a as)
  have same: "(if b = a then eheap s a else eheap s b) = eheap s b" for b
    by simp
  show ?case
    by (simp add: Cons.IH Let_def edge_triple_update adj_of_Cons same)
qed

lemma preprocess_vertexes_index:
  "adjList (preprocess_vertexes as s) = adjList s
   \<and> edgeTo (preprocess_vertexes as s) = edgeTo s
   \<and> marker (preprocess_vertexes as s) = marker s"
  by (induction as arbitrary: s) (simp_all add: Let_def)

lemma preprocess_edges_index:
  "edgeTo (preprocess_edges as s) = edgeTo s \<and> marker (preprocess_edges as s) = marker s"
  by (induction as arbitrary: s) (simp_all add: Let_def)

lemma setEdgeIndex_index:
  "adjList (setEdgeIndex s) = adjList s \<and> edgeTo (setEdgeIndex s) = edgeTo s
   \<and> marker (setEdgeIndex s) = marker s"
  by (simp add: setEdgeIndex_def split: prod.splits)

lemma preprocessData_index:
  "adjList (preprocessData s)
     = adj_of (vertexesMap s @ map (\<lambda>a. v_id (vheap s a)) (vertexes s)) (adjList s)
         (map (\<lambda>a. edge_triple (eheap s a)) (edges s))
   \<and> edgeTo (preprocessData s) = edgeTo s
   \<and> marker (preprocessData s) = marker s"
  by (simp add: preprocessData_def Let_def layout_def setEdgeIndex_index preprocess_edges_index
      preprocess_edges_adjList preprocess_vertexes_index preprocess_vertexes_vertexesMap
      preprocess_vertexes_fields)

lemma working_copies:
  "map (\<lambda>a. f ((xs @ xs @ xs) ! a)) [2 * length xs ..< 3 * length xs] = map f xs"
proof (rule nth_equalityI)
  show "length (map (\<lambda>a. f ((xs @ xs @ xs) ! a)) [2 * length xs ..< 3 * length xs]) = length (map f xs)"
    by simp
next
  fix i assume "i < length (map (\<lambda>a. f ((xs @ xs @ xs) ! a)) [2 * length xs ..< 3 * length xs])"
  then have i: "i < length xs" by simp
  then show "map (\<lambda>a. f ((xs @ xs @ xs) ! a)) [2 * length xs ..< 3 * length xs] ! i = map f xs ! i"
    by (simp add: nth_append)
qed

lemma Force_new_index:
  "vertexesMap (preprocessData (Force_new vs es)) = map v_id vs
   \<and> adjList (preprocessData (Force_new vs es)) = adj_of (map v_id vs) [] (map edge_triple es)
   \<and> edgeTo (preprocessData (Force_new vs es)) = Map.empty
   \<and> marker (preprocessData (Force_new vs es)) = Map.empty"
  by (simp add: preprocessData_vertexesMap preprocessData_index)
     (simp add: Force_new_def working_copies)

text \<open>The answer of \<^verbatim>\<open>shortestPath\<close> depends on the index and the search storage only.\<close>

lemma path_each_cong:
  "vertexesMap s = vertexesMap t \<Longrightarrow> adjList s = adjList t \<Longrightarrow>
     path_each s prev path r = path_each t prev path r"
  by (induction path arbitrary: prev r) (simp_all add: Let_def split: option.splits)

lemma bfs_index:
  "vertexesMap (bfs s v) = vertexesMap s \<and> adjList (bfs s v) = adjList s"
  by (simp add: bfs_def Let_def split: prod.splits)

lemma bfs_edgeTo_cong:
  assumes "vertexesMap s = vertexesMap t" "adjList s = adjList t" "edgeTo s = edgeTo t"
    "marker s = marker t"
  shows "edgeTo (bfs s v) = edgeTo (bfs t v)"
  using assms by (simp add: bfs_def Let_def split: prod.splits)

lemma shortestPath_cong:
  assumes "vertexesMap s = vertexesMap t" "adjList s = adjList t" "edgeTo s = edgeTo t"
    "marker s = marker t"
  shows "map_option snd (shortestPath s a b) = map_option snd (shortestPath t a b)"
proof -
  let ?from = "indexOf (vertexesMap t) a"
  have et: "edgeTo (bfs s ?from) = edgeTo (bfs t ?from)"
    by (rule bfs_edgeTo_cong [OF assms])
  have pe: "path_each (bfs s ?from) prev path r = path_each (bfs t ?from) prev path r" for prev path r
    by (rule path_each_cong) (simp_all add: bfs_index assms)
  show ?thesis
    by (simp add: shortestPath_def Let_def assms(1) pathTo_def et pe split: option.splits)
qed

lemma shortestPath_constructed:
  "map_option snd (shortestPath (preprocessData (Force_new vs es)) a b)
     = map_option snd (shortestPath
         (index_state (map v_id vs) (adj_of (map v_id vs) [] (map edge_triple es))) a b)"
  by (rule shortestPath_cong) (simp_all add: Force_new_index index_state_def)

section \<open>Shortest path on a chain\<close>

text \<open>
  C1, as stated: on the chain \<open>A \<rightarrow> B \<rightarrow> C\<close>, \<^verbatim>\<open>shortestPath(A, C)\<close> would return the
  vertex ids \<open>[A, B, C]\<close> and the edge ids \<open>[e1, e2]\<close>. The code does not return that.
\<close>

theorem shortestPath_chain_not_forward:
  "map_option snd (shortestPath chain_graph ''A'' ''C'')
     \<noteq> Some (Inr \<lparr> vertexIds = [Id ''A'', Id ''B'', Id ''C''], edgeIds = [Id ''e1'', Id ''e2''] \<rparr>)"
  by (simp add: chain_graph_def model_defs)

lemma chain_index_results:
  "\<forall>vm \<in> set [[''A'', ''B'', ''C''], [''A'', ''C'', ''B''], [''B'', ''A'', ''C''],
               [''B'', ''C'', ''A''], [''C'', ''A'', ''B''], [''C'', ''B'', ''A'']].
   \<forall>ts \<in> set [[(''e1'', ''A'', ''B''), (''e2'', ''B'', ''C'')],
               [(''e2'', ''B'', ''C''), (''e1'', ''A'', ''B'')]].
     map_option snd (shortestPath (index_state vm (adj_of vm [] ts)) ''A'' ''C'')
       = Some (Inr \<lparr> vertexIds = [Id ''C'', Id ''B'', Id ''A''], edgeIds = [Id ''e2'', Id ''e1''] \<rparr>)"
  by code_simp

text \<open>
  C1, amended: for vertex objects with the ids \<open>A\<close>, \<open>B\<close>, \<open>C\<close> and exactly the edges
  \<open>e1\<close> from \<open>A\<close> to \<open>B\<close> and \<open>e2\<close> from \<open>B\<close> to \<open>C\<close>, in any order of the two input
  arrays and with any other fields, after preprocessing \<^verbatim>\<open>shortestPath(A, C)\<close>
  returns the vertex ids from the target back to the source, \<open>[C, B, A]\<close>, and one edge
  id per hop in that same order, \<open>[e2, e1]\<close>.
\<close>

theorem shortestPath_chain:
  assumes "map v_id vs \<in> set [[''A'', ''B'', ''C''], [''A'', ''C'', ''B''], [''B'', ''A'', ''C''],
               [''B'', ''C'', ''A''], [''C'', ''A'', ''B''], [''C'', ''B'', ''A'']]"
    and "map edge_triple es \<in> set [[(''e1'', ''A'', ''B''), (''e2'', ''B'', ''C'')],
               [(''e2'', ''B'', ''C''), (''e1'', ''A'', ''B'')]]"
  shows "map_option snd (shortestPath (preprocessData (Force_new vs es)) ''A'' ''C'')
       = Some (Inr \<lparr> vertexIds = [Id ''C'', Id ''B'', Id ''A''], edgeIds = [Id ''e2'', Id ''e1''] \<rparr>)"
  unfolding shortestPath_constructed
  using chain_index_results assms by blast

theorem shortestPath_chain_witness:
  "map v_id [vertex_of ''A'', vertex_of ''B'', vertex_of ''C'']
     \<in> set [[''A'', ''B'', ''C''], [''A'', ''C'', ''B''], [''B'', ''A'', ''C''],
             [''B'', ''C'', ''A''], [''C'', ''A'', ''B''], [''C'', ''B'', ''A'']]
   \<and> map edge_triple [edge_of ''e1'' ''A'' ''B'', edge_of ''e2'' ''B'' ''C'']
     \<in> set [[(''e1'', ''A'', ''B''), (''e2'', ''B'', ''C'')],
             [(''e2'', ''B'', ''C''), (''e1'', ''A'', ''B'')]]
   \<and> map_option snd (shortestPath chain_graph ''A'' ''C'')
     = Some (Inr \<lparr> vertexIds = [Id ''C'', Id ''B'', Id ''A''], edgeIds = [Id ''e2'', Id ''e1''] \<rparr>)"
proof -
  have v: "map v_id [vertex_of ''A'', vertex_of ''B'', vertex_of ''C'']
     \<in> set [[''A'', ''B'', ''C''], [''A'', ''C'', ''B''], [''B'', ''A'', ''C''],
             [''B'', ''C'', ''A''], [''C'', ''A'', ''B''], [''C'', ''B'', ''A'']]"
    by (simp add: vertex_of_def)
  have e: "map edge_triple [edge_of ''e1'' ''A'' ''B'', edge_of ''e2'' ''B'' ''C'']
     \<in> set [[(''e1'', ''A'', ''B''), (''e2'', ''B'', ''C'')],
             [(''e2'', ''B'', ''C''), (''e1'', ''A'', ''B'')]]"
    by (simp add: edge_of_def edge_triple_def)
  from shortestPath_chain [OF v e] v e show ?thesis
    by (simp add: chain_graph_def)
qed

section \<open>Edge multiplicity on self-loops\<close>

text \<open>
  C2 (the edges of a pair get the indices \<open>1..k\<close> and the sibling count \<open>k\<close>, also for
  a vertex paired with itself): evaluated on a vertex with two self-loops. For a
  self-loop both counter keys are the same string, so the counter is incremented twice
  per edge: the two edges get the indices \<open>1\<close> and \<open>3\<close> and the sibling count \<open>3\<close>.
\<close>

theorem setEdgeIndex_self_loops:
  "map edgeIndex (edge_values loops_graph (edges loops_graph)) = [Number 1, Number 3]
   \<and> map siblingNum (edge_values loops_graph (edges loops_graph)) = [Number 3, Number 3]"
  by code_simp

section \<open>Edge multiplicity without self-loops and key collisions\<close>

text \<open>
  Where no working edge is a self-loop, the concatenation of two endpoint ids
  determines the two ids and is no name of a member of \<^verbatim>\<open>Object.prototype\<close>, the
  counters of \<^verbatim>\<open>setEdgeIndex\<close> count the edges of each unordered pair.
\<close>

lemma plain_key_get:
  "k \<notin> set object_prototype_names \<Longrightarrow> prop_get m k = (case m k of None \<Rightarrow> Undef | Some v \<Rightarrow> v)"
  by (simp add: prop_get_def)

lemma plain_key_set:
  "k \<notin> set object_prototype_names \<Longrightarrow> prop_set m k v = m(k \<mapsto> v)"
  by (auto simp: prop_set_def object_prototype_names_def)

lemma touches_sym:
  assumes "keys_ok ps" "p \<in> set ps" "p' \<in> set ps"
  shows "touches (fst p @ snd p) p' = touches (snd p @ fst p) p'"
  using assms unfolding keys_ok_def touches_def by blast

lemma cnt_sym:
  assumes "keys_ok (pre @ [p])"
  shows "cnt pre (fst p @ snd p) = cnt pre (snd p @ fst p)"
proof -
  have "filter (touches (fst p @ snd p)) pre = filter (touches (snd p @ fst p)) pre"
    by (rule filter_cong [OF refl]) (use assms in \<open>simp add: touches_sym [of "pre @ [p]"]\<close>)
  then show ?thesis by (simp add: cnt_def)
qed

lemma cnt_snoc: "cnt (pre @ [p]) k = cnt pre k + (if touches k p then 1 else 0)"
  by (simp add: cnt_def)

lemma touches_edge_key:
  "touches k (edge_key e) \<longleftrightarrow> k = e_from e @ e_to e \<or> k = e_to e @ e_from e"
  by (auto simp: touches_def edge_key_def)

lemma count_edge_new:
  assumes "m (e_from e @ e_to e) = None"
    and "e_from e @ e_to e \<notin> set object_prototype_names"
    and "e_to e @ e_from e \<notin> set object_prototype_names"
  shows "count_edge m e = m(e_to e @ e_from e \<mapsto> Number 1, e_from e @ e_to e \<mapsto> Number 1)"
  using assms by (simp add: count_edge_def Let_def truthy_def plain_key_get plain_key_set)

lemma count_edge_old:
  assumes "m (e_from e @ e_to e) = Some (Number c)" "0 < c" "m (e_to e @ e_from e) = Some (Number c)"
    "e_from e @ e_to e \<noteq> e_to e @ e_from e"
    and "e_from e @ e_to e \<notin> set object_prototype_names"
    and "e_to e @ e_from e \<notin> set object_prototype_names"
  shows "count_edge m e = m(e_from e @ e_to e \<mapsto> Number (c + 1), e_to e @ e_from e \<mapsto> Number (c + 1))"
  using assms by (simp add: count_edge_def Let_def truthy_def incr_def plain_key_get plain_key_set)

lemma keys_ok_plain:
  assumes "keys_ok (pre @ [edge_key e])"
  shows "e_from e @ e_to e \<notin> set object_prototype_names"
    and "e_to e @ e_from e \<notin> set object_prototype_names"
    and "e_from e @ e_to e \<noteq> e_to e @ e_from e"
  using assms by (simp_all add: keys_ok_def edge_key_def)

lemma count_edge_counted:
  assumes ok: "keys_ok (pre @ [edge_key e])"
  shows "count_edge (counted pre) e = counted (pre @ [edge_key e])"
proof -
  let ?ft = "e_from e @ e_to e" and ?tf = "e_to e @ e_from e"
  note plain = keys_ok_plain(1,2) [OF ok]
  have ne: "?ft \<noteq> ?tf"
    by (rule keys_ok_plain(3) [OF ok])
  have sym: "cnt pre ?ft = cnt pre ?tf"
    using cnt_sym [OF ok] by (simp add: edge_key_def)
  show ?thesis
  proof (cases "cnt pre ?ft = 0")
    case True
    then have "counted pre ?ft = None" by (simp add: counted_def)
    then have "count_edge (counted pre) e = (counted pre)(?tf \<mapsto> Number 1, ?ft \<mapsto> Number 1)"
      using plain by (rule count_edge_new)
    also have "\<dots> = counted (pre @ [edge_key e])"
    proof (rule ext)
      fix k
      show "((counted pre)(?tf \<mapsto> Number 1, ?ft \<mapsto> Number 1)) k = counted (pre @ [edge_key e]) k"
        using True sym by (simp add: counted_def cnt_snoc touches_edge_key)
    qed
    finally show ?thesis .
  next
    case False
    then have "counted pre ?ft = Some (Number (cnt pre ?ft))" "0 < cnt pre ?ft"
      "counted pre ?tf = Some (Number (cnt pre ?ft))"
      using sym by (simp_all add: counted_def)
    then have "count_edge (counted pre) e
        = (counted pre)(?ft \<mapsto> Number (cnt pre ?ft + 1), ?tf \<mapsto> Number (cnt pre ?ft + 1))"
      using ne plain by (rule count_edge_old)
    also have "\<dots> = counted (pre @ [edge_key e])"
    proof (rule ext)
      fix k
      show "((counted pre)(?ft \<mapsto> Number (cnt pre ?ft + 1), ?tf \<mapsto> Number (cnt pre ?ft + 1))) k
          = counted (pre @ [edge_key e]) k"
        using False sym by (simp add: counted_def cnt_snoc touches_edge_key)
    qed
    finally show ?thesis .
  qed
qed

lemma find_snoc:
  "find P (xs @ [x]) = (case find P xs of None \<Rightarrow> (if P x then Some x else None) | Some y \<Rightarrow> Some y)"
  by (induction xs) simp_all

lemma find_None_cnt: "find (touches k) ps = None \<longleftrightarrow> cnt ps k = 0"
  by (auto simp: find_None_iff cnt_def filter_empty_conv)

lemma first_from_snoc:
  "first_from (pre @ [p]) k =
     (if cnt pre k = 0 then (if touches k p then Some (fst p) else None) else first_from pre k)"
proof (cases "find (touches k) pre")
  case None
  then show ?thesis
    using find_None_cnt [of k pre] by (simp add: first_from_def find_snoc)
next
  case (Some y)
  then have "cnt pre k \<noteq> 0"
    using find_None_cnt [of k pre] by simp
  with Some show ?thesis
    by (simp add: first_from_def find_snoc)
qed

lemma first_from_None: "cnt pre k = 0 \<Longrightarrow> first_from pre k = None"
  using find_None_cnt [of k pre] by (simp add: first_from_def)

lemma record_direction_first:
  assumes ok: "keys_ok (pre @ [edge_key e])"
  shows "record_direction (counted pre) (first_from pre) e = first_from (pre @ [edge_key e])"
proof -
  let ?ft = "e_from e @ e_to e" and ?tf = "e_to e @ e_from e"
  note plain = keys_ok_plain(1,2) [OF ok]
  have sym: "cnt pre ?ft = cnt pre ?tf"
    using cnt_sym [OF ok] by (simp add: edge_key_def)
  show ?thesis
  proof (cases "cnt pre ?ft = 0")
    case True
    then have "record_direction (counted pre) (first_from pre) e
        = (first_from pre)(?tf \<mapsto> e_from e, ?ft \<mapsto> e_from e)"
      using plain
      by (simp add: record_direction_def Let_def truthy_def counted_def plain_key_get plain_key_set)
    also have "\<dots> = first_from (pre @ [edge_key e])"
    proof (rule ext)
      fix k
      show "((first_from pre)(?tf \<mapsto> e_from e, ?ft \<mapsto> e_from e)) k = first_from (pre @ [edge_key e]) k"
        using True sym
        by (simp add: first_from_snoc touches_edge_key first_from_None) (simp add: edge_key_def)
    qed
    finally show ?thesis .
  next
    case False
    then have "record_direction (counted pre) (first_from pre) e = first_from pre"
      using plain
      by (simp add: record_direction_def Let_def truthy_def counted_def plain_key_get)
    also have "\<dots> = first_from (pre @ [edge_key e])"
    proof (rule ext)
      fix k
      show "first_from pre k = first_from (pre @ [edge_key e]) k"
        using False sym
        by (auto simp: first_from_snoc touches_edge_key first_from_None)
    qed
    finally show ?thesis .
  qed
qed

lemma keys_ok_mono: "set ps \<subseteq> set qs \<Longrightarrow> keys_ok qs \<Longrightarrow> keys_ok ps"
  unfolding keys_ok_def by blast

lemma cnt_own: "cnt (pre @ [edge_key e]) (e_from e @ e_to e) = Suc (cnt pre (e_from e @ e_to e))"
  by (simp add: cnt_snoc touches_edge_key)

lemma edgeIndex_pass_counts:
  assumes "keys_ok (pre @ map (\<lambda>a. edge_key (h a)) as)" and "distinct as"
    and "edgeIndex_pass as (counted pre) (first_from pre) h = (num', dir', h')"
  shows "num' = counted (pre @ map (\<lambda>a. edge_key (h a)) as)
       \<and> dir' = first_from (pre @ map (\<lambda>a. edge_key (h a)) as)
       \<and> (\<forall>i < length as. edgeIndex (h' (as ! i))
            = Number (Suc (cnt (pre @ take i (map (\<lambda>a. edge_key (h a)) as))
                               (e_from (h (as ! i)) @ e_to (h (as ! i))))))"
  using assms
proof (induction as arbitrary: pre h)
  case Nil
  then show ?case by simp
next
  case (Cons b as)
  let ?p = "edge_key (h b)"
  let ?ft = "e_from (h b) @ e_to (h b)"
  define h1 where "h1 = h(b := (h b)\<lparr> edgeIndex := prop_get (counted (pre @ [?p])) ?ft \<rparr>)"
  have ok1: "keys_ok (pre @ [?p])"
    by (rule keys_ok_mono [OF _ Cons.prems(1)]) auto
  have keys: "edge_key (h1 a) = edge_key (h a)" for a
    by (simp add: h1_def edge_key_def)
  have ends: "e_from (h1 a) = e_from (h a)" "e_to (h1 a) = e_to (h a)" for a
    by (simp_all add: h1_def)
  have run1: "edgeIndex_pass as (counted (pre @ [?p])) (first_from (pre @ [?p])) h1 = (num', dir', h')"
    using Cons.prems(3)
    by (simp add: Let_def count_edge_counted [OF ok1] record_direction_first [OF ok1] h1_def)
  have ok': "keys_ok ((pre @ [?p]) @ map (\<lambda>a. edge_key (h1 a)) as)"
    using Cons.prems(1) by (simp add: keys)
  have dist: "distinct as" and fresh: "b \<notin> set as"
    using Cons.prems(2) by simp_all
  note IH = Cons.IH [OF ok' dist run1]
  have at_b: "edgeIndex (h' b) = Number (Suc (cnt pre ?ft))"
  proof -
    have "h' b = h1 b"
      using edgeIndex_pass_frame [OF run1, of b] fresh by simp
    then show ?thesis
      using keys_ok_plain(1) [OF ok1]
      by (simp add: h1_def counted_def cnt_own plain_key_get)
  qed
  have "edgeIndex (h' ((b # as) ! i))
      = Number (Suc (cnt (pre @ take i (map (\<lambda>a. edge_key (h a)) (b # as)))
                         (e_from (h ((b # as) ! i)) @ e_to (h ((b # as) ! i)))))"
    if "i < length (b # as)" for i
  proof (cases i)
    case 0
    then show ?thesis using at_b by simp
  next
    case (Suc j)
    with that have "j < length as" by simp
    with IH have "edgeIndex (h' (as ! j))
        = Number (Suc (cnt ((pre @ [?p]) @ take j (map (\<lambda>a. edge_key (h1 a)) as))
                           (e_from (h1 (as ! j)) @ e_to (h1 (as ! j)))))"
      by blast
    then show ?thesis
      by (simp add: Suc keys ends)
  qed
  with IH show ?case
    by (simp add: keys)
qed

lemma pairs_ok_concat:
  assumes "pairs_ok h as" "a \<in> set as" "b \<in> set as"
  shows "e_from (h b) @ e_to (h b) = e_from (h a) @ e_to (h a)
           \<longleftrightarrow> e_from (h b) = e_from (h a) \<and> e_to (h b) = e_to (h a)"
    and "e_to (h b) @ e_from (h b) = e_to (h a) @ e_from (h a)
           \<longleftrightarrow> e_from (h b) = e_from (h a) \<and> e_to (h b) = e_to (h a)"
    and "e_from (h b) @ e_to (h b) = e_to (h a) @ e_from (h a)
           \<longleftrightarrow> e_from (h b) = e_to (h a) \<and> e_to (h b) = e_from (h a)"
    and "e_to (h b) @ e_from (h b) = e_from (h a) @ e_to (h a)
           \<longleftrightarrow> e_from (h b) = e_to (h a) \<and> e_to (h b) = e_from (h a)"
proof -
  let ?K = "(\<lambda>a. (e_from (h a), e_to (h a))) ` set as \<union> (\<lambda>a. (e_to (h a), e_from (h a))) ` set as"
  have inj: "inj_on (\<lambda>(f, t). f @ t) ?K"
    using assms(1) by (simp add: pairs_ok_def)
  have mem: "(e_from (h a), e_to (h a)) \<in> ?K" "(e_to (h a), e_from (h a)) \<in> ?K"
    "(e_from (h b), e_to (h b)) \<in> ?K" "(e_to (h b), e_from (h b)) \<in> ?K"
    using assms(2,3) by auto
  show "e_from (h b) @ e_to (h b) = e_from (h a) @ e_to (h a)
           \<longleftrightarrow> e_from (h b) = e_from (h a) \<and> e_to (h b) = e_to (h a)"
    using inj_onD [OF inj _ mem(3) mem(1)] by auto
  show "e_to (h b) @ e_from (h b) = e_to (h a) @ e_from (h a)
           \<longleftrightarrow> e_from (h b) = e_from (h a) \<and> e_to (h b) = e_to (h a)"
    using inj_onD [OF inj _ mem(4) mem(2)] by auto
  show "e_from (h b) @ e_to (h b) = e_to (h a) @ e_from (h a)
           \<longleftrightarrow> e_from (h b) = e_to (h a) \<and> e_to (h b) = e_from (h a)"
    using inj_onD [OF inj _ mem(3) mem(2)] by auto
  show "e_to (h b) @ e_from (h b) = e_from (h a) @ e_to (h a)
           \<longleftrightarrow> e_from (h b) = e_to (h a) \<and> e_to (h b) = e_from (h a)"
    using inj_onD [OF inj _ mem(4) mem(1)] by auto
qed

lemma pairs_ok_keys_ok:
  assumes "pairs_ok h as"
  shows "keys_ok (map (\<lambda>a. edge_key (h a)) as)"
  unfolding keys_ok_def
proof (intro conjI ballI)
  fix p assume "p \<in> set (map (\<lambda>a. edge_key (h a)) as)"
  then obtain a where a: "a \<in> set as" "p = edge_key (h a)" by auto
  have "e_from (h a) \<noteq> e_to (h a)"
    using assms a(1) by (simp add: pairs_ok_def)
  then show "fst p @ snd p \<noteq> snd p @ fst p"
    using pairs_ok_concat(3) [OF assms a(1) a(1)] by (simp add: a(2) edge_key_def)
next
  fix p assume "p \<in> set (map (\<lambda>a. edge_key (h a)) as)"
  then obtain a where a: "a \<in> set as" "p = edge_key (h a)" by auto
  show "fst p @ snd p \<notin> set object_prototype_names"
    using assms a(1) by (simp add: pairs_ok_def a(2) edge_key_def)
  show "snd p @ fst p \<notin> set object_prototype_names"
    using assms a(1) by (simp add: pairs_ok_def a(2) edge_key_def)
next
  fix p p' assume "p \<in> set (map (\<lambda>a. edge_key (h a)) as)" "p' \<in> set (map (\<lambda>a. edge_key (h a)) as)"
  then obtain a b where a: "a \<in> set as" "p = edge_key (h a)" and b: "b \<in> set as" "p' = edge_key (h b)"
    by auto
  show "(fst p' @ snd p' = fst p @ snd p) = (snd p' @ fst p' = snd p @ fst p)"
    using pairs_ok_concat(1,2) [OF assms a(1) b(1)] by (simp add: a(2) b(2) edge_key_def)
  show "(fst p' @ snd p' = snd p @ fst p) = (snd p' @ fst p' = fst p @ snd p)"
    using pairs_ok_concat(3,4) [OF assms a(1) b(1)] by (simp add: a(2) b(2) edge_key_def)
qed

lemma touches_same_pair:
  assumes "pairs_ok h as" "a \<in> set as" "b \<in> set as"
  shows "touches (e_from (h a) @ e_to (h a)) (edge_key (h b)) \<longleftrightarrow> same_pair h a b"
  using pairs_ok_concat(1,4) [OF assms]
  by (auto simp: touches_def edge_key_def same_pair_def)

lemma same_pair_refl: "same_pair h a a"
  by (simp add: same_pair_def)

lemma same_pair_trans: "same_pair h a b \<Longrightarrow> same_pair h b c = same_pair h a c"
  by (auto simp: same_pair_def)

lemma positions_image:
  "(\<lambda>i. Suc (length (filter P (take i as)))) ` {i. i < length as \<and> P (as ! i)}
     = {1 .. length (filter P as)}"
proof (induction as rule: rev_induct)
  case Nil
  then show ?case by simp
next
  case (snoc x as)
  let ?I = "{i. i < length as \<and> P (as ! i)}"
  have split: "{i. i < length (as @ [x]) \<and> P ((as @ [x]) ! i)}
      = ?I \<union> (if P x then {length as} else {})"
    by (auto simp: nth_append less_Suc_eq)
  have old: "(\<lambda>i. Suc (length (filter P (take i (as @ [x]))))) ` ?I
      = (\<lambda>i. Suc (length (filter P (take i as)))) ` ?I"
    by (rule image_cong) simp_all
  show ?case
  proof (cases "P x")
    case True
    have "{1 .. length (filter P (as @ [x]))} = {1 .. length (filter P as)} \<union> {Suc (length (filter P as))}"
      using True by (auto simp: atLeastAtMostSuc_conv)
    then show ?thesis
      unfolding split image_Un old snoc.IH using True by simp
  next
    case False
    then show ?thesis
      unfolding split image_Un old snoc.IH by simp
  qed
qed

lemma counted_Nil: "counted [] = Map.empty"
  by (simp add: counted_def cnt_def)

lemma first_from_Nil: "first_from [] = Map.empty"
  by (simp add: first_from_def)

lemma find_hd_filter:
  "\<exists>x \<in> set xs. P x \<Longrightarrow> find P xs = Some (hd (filter P xs))"
  by (induction xs) auto

lemma find_map: "find P (map f xs) = map_option f (find (P \<circ> f) xs)"
  by (induction xs) simp_all

text \<open>
  For distinct working edge objects without self-loops and key collisions,
  \<^verbatim>\<open>setEdgeIndex\<close> leaves the endpoints alone and gives the edge at index \<open>i\<close> the
  number of the working edges between its endpoints as sibling count, its position
  among them as edge index, and the label direction \<open>1\<close> exactly when it starts where
  the first of them starts.
\<close>

lemma edge_index_heap_multiplicity:
  assumes dist: "distinct as" and ok: "pairs_ok h as" and i: "i < length as"
  shows "e_from (edge_index_heap as h (as ! i)) = e_from (h (as ! i))"
    and "e_to (edge_index_heap as h (as ! i)) = e_to (h (as ! i))"
    and "siblingNum (edge_index_heap as h (as ! i)) = Number (sibling_count h as (as ! i))"
    and "edgeIndex (edge_index_heap as h (as ! i)) = Number (sibling_rank h as i)"
    and "labelDirection (edge_index_heap as h (as ! i))
           = Number (if runs_first_met h as (as ! i) then 1 else 0)"
proof -
  define a where "a = as ! i"
  define ks where "ks = map (\<lambda>b. edge_key (h b)) as"
  let ?ft = "e_from (h a) @ e_to (h a)"
  have a: "a \<in> set as"
    using i by (simp add: a_def)
  obtain num' dir' h' where run: "edgeIndex_pass as (counted []) (first_from []) h = (num', dir', h')"
    by (metis prod_cases3)
  have kok: "keys_ok ks"
    using pairs_ok_keys_ok [OF ok] by (simp add: ks_def)
  then have "keys_ok ([] @ map (\<lambda>b. edge_key (h b)) as)"
    by (simp add: ks_def)
  from edgeIndex_pass_counts [OF this dist run]
  have num': "num' = counted ks" and dir': "dir' = first_from ks"
    and idx: "\<And>j. j < length as \<Longrightarrow>
        edgeIndex (h' (as ! j)) = Number (Suc (cnt (take j ks) (e_from (h (as ! j)) @ e_to (h (as ! j)))))"
    by (simp_all add: ks_def)
  have H: "edge_index_heap as h = on_addresses as (sibling_fields num' dir') h'"
    using run by (simp add: edge_index_heap_def sibling_pass_eq counted_Nil first_from_Nil)
  have ends': "e_from (h' b) = e_from (h b)" "e_to (h' b) = e_to (h b)" for b
    using no_index_eqD(1,2) [of "h' b" "h b"] edgeIndex_pass_frame [OF run, of b] by simp_all
  have plain: "?ft \<notin> set object_prototype_names"
    using ok a by (simp add: pairs_ok_def)
  have cnt_take: "cnt (take j ks) ?ft = length (siblings h (take j as) a)" for j
  proof -
    have "filter (\<lambda>c. touches ?ft (edge_key (h c))) (take j as) = filter (same_pair h a) (take j as)"
      by (rule filter_cong [OF refl])
        (use touches_same_pair [OF ok a] in \<open>auto dest: in_set_takeD\<close>)
    then show ?thesis
      by (simp add: cnt_def ks_def take_map filter_map comp_def siblings_def)
  qed
  have cnt_all: "cnt ks ?ft = sibling_count h as a"
    using cnt_take [of "length as"] by (simp add: ks_def sibling_count_def)
  have pos: "0 < sibling_count h as a"
    using a same_pair_refl [of h a] by (auto simp: sibling_count_def siblings_def filter_empty_conv)
  show "e_from (edge_index_heap as h (as ! i)) = e_from (h (as ! i))"
    and "e_to (edge_index_heap as h (as ! i)) = e_to (h (as ! i))"
    by (simp_all add: H on_addresses_def sibling_fields_def ends')
  show "siblingNum (edge_index_heap as h (as ! i)) = Number (sibling_count h as (as ! i))"
    using a pos plain
    by (simp add: H on_addresses_def sibling_fields_def ends' num' counted_def cnt_all
        plain_key_get a_def [symmetric])
  show "edgeIndex (edge_index_heap as h (as ! i)) = Number (sibling_rank h as i)"
    using idx [OF i] cnt_take [of i]
    by (simp add: H on_addresses_def sibling_fields_def sibling_rank_def a_def)
  show "labelDirection (edge_index_heap as h (as ! i))
           = Number (if runs_first_met h as (as ! i) then 1 else 0)"
  proof -
    have "find (touches ?ft) ks
        = map_option (\<lambda>b. edge_key (h b)) (find (\<lambda>c. touches ?ft (edge_key (h c))) as)"
      by (simp add: ks_def find_map comp_def)
    also have "find (\<lambda>c. touches ?ft (edge_key (h c))) as = find (same_pair h a) as"
      by (rule find_cong [OF refl]) (use touches_same_pair [OF ok a] in auto)
    also have "\<dots> = Some (hd (filter (same_pair h a) as))"
      by (rule find_hd_filter) (use a same_pair_refl [of h a] in auto)
    finally have "first_from ks ?ft = Some (e_from (h (hd (siblings h as a))))"
      by (simp add: first_from_def edge_key_def siblings_def)
    then show ?thesis
      using a
      by (auto simp: H on_addresses_def sibling_fields_def ends' dir' runs_first_met_def
          a_def [symmetric])
  qed
qed

lemma sibling_rank_le:
  assumes "i < length as"
  shows "1 \<le> sibling_rank h as i \<and> sibling_rank h as i \<le> sibling_count h as (as ! i)"
proof -
  let ?P = "same_pair h (as ! i)"
  have eq: "as = take i as @ as ! i # drop (Suc i) as"
    using assms by (rule id_take_nth_drop)
  have "filter ?P (take i as @ as ! i # drop (Suc i) as)
      = filter ?P (take i as) @ as ! i # filter ?P (drop (Suc i) as)"
    by (simp add: same_pair_refl)
  with arg_cong [OF eq, of "filter ?P"]
  have "filter ?P as = filter ?P (take i as) @ as ! i # filter ?P (drop (Suc i) as)"
    by (rule trans)
  from arg_cong [OF this, of length]
  have "length (filter ?P (take i as)) < length (filter ?P as)"
    by simp
  then show ?thesis
    by (simp add: sibling_rank_def sibling_count_def siblings_def)
qed

lemma setEdgeIndex_multiplicity:
  assumes "distinct (edges s)" and "pairs_ok (eheap s) (edges s)" and "i < length (edges s)"
  shows "e_from (eheap (setEdgeIndex s) (edges s ! i)) = e_from (eheap s (edges s ! i))"
    and "e_to (eheap (setEdgeIndex s) (edges s ! i)) = e_to (eheap s (edges s ! i))"
    and "siblingNum (eheap (setEdgeIndex s) (edges s ! i))
           = Number (sibling_count (eheap s) (edges s) (edges s ! i))"
    and "edgeIndex (eheap (setEdgeIndex s) (edges s ! i)) = Number (sibling_rank (eheap s) (edges s) i)"
    and "labelDirection (eheap (setEdgeIndex s) (edges s ! i))
           = Number (if runs_first_met (eheap s) (edges s) (edges s ! i) then 1 else 0)"
  using edge_index_heap_multiplicity [OF assms] by (simp_all add: setEdgeIndex_fields)


lemma edge_default_ends:
  "e_from (on_addresses as edge_default h b) = e_from (h b)"
  "e_to (on_addresses as edge_default h b) = e_to (h b)"
  by (simp_all add: on_addresses_def edge_default_def)

lemma edge_default_same_pair:
  "same_pair (on_addresses as edge_default h) = same_pair h"
  by (simp add: same_pair_def fun_eq_iff edge_default_ends)

lemma edge_default_pairs_ok:
  "pairs_ok (on_addresses as edge_default h) bs = pairs_ok h bs"
  by (simp add: pairs_ok_def edge_default_ends)

text \<open>
  The same after \<^verbatim>\<open>preprocessData\<close>; and the edges between two endpoints get exactly
  the indices \<open>1..k\<close>, where \<open>k\<close> is their number.
\<close>

lemma multiplicity_without_collisions:
  assumes dist: "distinct (edges s)" and ok: "pairs_ok (eheap s) (edges s)"
    and a: "a \<in> set (edges s)"
  shows "siblingNum (eheap (preprocessData s) a) = Number (sibling_count (eheap s) (edges s) a)
    \<and> (\<lambda>b. edgeIndex (eheap (preprocessData s) b)) ` set (siblings (eheap s) (edges s) a)
        = Number ` {1 .. sibling_count (eheap s) (edges s) a}
    \<and> labelDirection (eheap (preprocessData s) a)
        = Number (if runs_first_met (eheap s) (edges s) a then 1 else 0)"
proof -
  define as where "as = edges s"
  define h where "h = eheap s"
  define h0 where "h0 = on_addresses as edge_default h"
  have H: "eheap (preprocessData s) = edge_index_heap as h0"
    by (simp add: preprocessData_fields as_def h0_def h_def)
  have sp: "same_pair h0 = same_pair h"
    by (simp add: h0_def edge_default_same_pair)
  have same: "siblings h0 = siblings h" "sibling_count h0 = sibling_count h"
    "sibling_rank h0 = sibling_rank h"
    by (simp_all add: fun_eq_iff siblings_def sibling_count_def sibling_rank_def sp)
  have ends0: "e_from (h0 b) = e_from (h b)" for b
    by (simp add: h0_def edge_default_ends)
  have first: "runs_first_met h0 as b = runs_first_met h as b" for b
    by (simp add: runs_first_met_def same ends0)
  have dist': "distinct as" and ok0: "pairs_ok h0 as"
    using dist ok by (simp_all add: as_def h_def h0_def edge_default_pairs_ok)
  note M = edge_index_heap_multiplicity [OF dist' ok0]
  from a obtain i where i: "i < length as" "as ! i = a"
    by (auto simp: as_def in_set_conv_nth)
  have sib: "siblingNum (eheap (preprocessData s) a) = Number (sibling_count h as a)"
    using M(3) [OF i(1)] by (simp add: H same i(2))
  have lab: "labelDirection (eheap (preprocessData s) a)
      = Number (if runs_first_met h as a then 1 else 0)"
    using M(5) [OF i(1)] by (simp add: H first i(2))
  have img: "(\<lambda>b. edgeIndex (eheap (preprocessData s) b)) ` set (siblings h as a)
      = Number ` {1 .. sibling_count h as a}"
  proof -
    let ?P = "same_pair h a"
    let ?I = "{j. j < length as \<and> ?P (as ! j)}"
    have S_idx: "set (siblings h as a) = (\<lambda>j. as ! j) ` ?I"
      by (auto simp: siblings_def in_set_conv_nth)
    have "(\<lambda>b. edgeIndex (eheap (preprocessData s) b)) ` set (siblings h as a)
        = (\<lambda>j. edgeIndex (eheap (preprocessData s) (as ! j))) ` ?I"
      by (subst S_idx) (simp add: image_image)
    also have "\<dots> = (\<lambda>j. Number (Suc (length (filter ?P (take j as))))) ` ?I"
    proof (rule image_cong [OF refl])
      fix j assume "j \<in> ?I"
      then have j: "j < length as" "?P (as ! j)" by simp_all
      have "filter (same_pair h (as ! j)) (take j as) = filter ?P (take j as)"
        by (rule filter_cong [OF refl]) (simp add: same_pair_trans [OF j(2)])
      then show "edgeIndex (eheap (preprocessData s) (as ! j))
          = Number (Suc (length (filter ?P (take j as))))"
        using M(4) [OF j(1)] by (simp add: H same sibling_rank_def siblings_def)
    qed
    also have "\<dots> = Number ` ((\<lambda>j. Suc (length (filter ?P (take j as)))) ` ?I)"
      by (simp add: image_image)
    also have "\<dots> = Number ` {1 .. length (filter ?P as)}"
      using positions_image [of ?P as] by simp
    finally show ?thesis
      by (simp add: sibling_count_def siblings_def)
  qed
  from sib img lab show ?thesis
    by (simp add: as_def h_def)
qed

section \<open>The index after a filter\<close>

lemma triangle_filtered_edges:
  "map e_id (edge_values triangle_filtered (edges triangle_filtered)) = [''e1'', ''e2'']"
  by code_simp

lemma triangle_filtered_vertexesMap:
  "vertexesMap triangle_filtered = [''A'', ''B'', ''C'', ''A'', ''B'', ''C'']"
  by code_simp

lemma triangle_filtered_adjList:
  "adjList triangle_filtered
     = [(0, [(1, [''e1'', ''e1'']), (2, [''e3''])]), (1, [(2, [''e2'', ''e2''])])]"
  by code_simp

lemma triangle_filtered_path:
  "map_option snd (shortestPath triangle_filtered ''A'' ''C'')
     = Some (Inr \<lparr> vertexIds = [Id ''C'', Id ''A''], edgeIds = [Id ''e3''] \<rparr>)"
  by code_simp

text \<open>
  C3 (after a filter the ordinal map and the adjacency index hold nothing of the removed
  edges): evaluated on the triangle after \<open>e3\<close> is filtered out. The working edges are
  \<open>e1\<close> and \<open>e2\<close>, but \<^verbatim>\<open>preprocessData\<close> has appended to the old \<^verbatim>\<open>vertexesMap\<close>
  and \<^verbatim>\<open>adjList\<close>, and \<^verbatim>\<open>shortestPath(A, C)\<close> answers with the removed edge \<open>e3\<close>.
\<close>

theorem filterEdge_keeps_stale_index:
  "map e_id (edge_values triangle_filtered (edges triangle_filtered)) = [''e1'', ''e2'']
   \<and> vertexesMap triangle_filtered = [''A'', ''B'', ''C'', ''A'', ''B'', ''C'']
   \<and> adjList triangle_filtered
       = [(0, [(1, [''e1'', ''e1'']), (2, [''e3''])]), (1, [(2, [''e2'', ''e2''])])]
   \<and> map_option snd (shortestPath triangle_filtered ''A'' ''C'')
       = Some (Inr \<lparr> vertexIds = [Id ''C'', Id ''A''], edgeIds = [Id ''e3''] \<rparr>)"
  using triangle_filtered_edges triangle_filtered_vertexesMap triangle_filtered_adjList
    triangle_filtered_path
  by blast

section \<open>Predecessor storage across queries\<close>

text \<open>
  C4 (a query gives the same result after another query as alone): evaluated on the
  edge \<open>A \<rightarrow> B\<close> with the isolated vertex \<open>C\<close>. Alone, \<^verbatim>\<open>shortestPath(C, B)\<close> returns
  the default result. After \<^verbatim>\<open>shortestPath(A, B)\<close>, which leaves \<^verbatim>\<open>edgeTo[1] = 0\<close>
  behind, the same call throws a \<^verbatim>\<open>TypeError\<close>.
\<close>

theorem shortestPath_second_call_differs:
  "map_option snd (shortestPath lone_graph ''C'' ''B'')
     = Some (Inr \<lparr> vertexIds = [Id ''B''], edgeIds = [] \<rparr>)
   \<and> map_option snd (shortestPath (after_query lone_graph ''A'' ''B'') ''C'' ''B'')
     = Some (Inl TypeError)"
  by code_simp

text \<open>
  A predecessor array that holds a cycle away from the source keeps \<^verbatim>\<open>pathTo\<close>
  running for ever.
\<close>

lemma pathTo_loop_avoids_cycle:
  assumes run: "pathTo_loop et0 from0 to0 path0 = Some y0"
  shows "et0 a = Some b \<longrightarrow> et0 b = Some a \<longrightarrow> a \<noteq> from0 \<longrightarrow> b \<noteq> from0
           \<longrightarrow> to0 \<noteq> a \<and> to0 \<noteq> b"
  using run
proof (rule pathTo_loop.raw_induct [where P = "\<lambda>et from to path y.
    et a = Some b \<longrightarrow> et b = Some a \<longrightarrow> a \<noteq> from \<longrightarrow> b \<noteq> from \<longrightarrow> to \<noteq> a \<and> to \<noteq> b", rotated 1])
  fix f :: "(int \<rightharpoonup> int) \<Rightarrow> int \<Rightarrow> int \<Rightarrow> int list \<Rightarrow> int list option"
    and et :: "int \<rightharpoonup> int" and src tgt :: int and path y :: "int list"
  assume IH: "\<And>et from to path y. f et from to path = Some y \<Longrightarrow>
      et a = Some b \<longrightarrow> et b = Some a \<longrightarrow> a \<noteq> from \<longrightarrow> b \<noteq> from \<longrightarrow> to \<noteq> a \<and> to \<noteq> b"
    and step: "(if tgt \<noteq> src \<and> et tgt \<noteq> None then f et src (the (et tgt)) (path @ [tgt])
          else Some (path @ [src])) = Some y"
  show "et a = Some b \<longrightarrow> et b = Some a \<longrightarrow> a \<noteq> src \<longrightarrow> b \<noteq> src \<longrightarrow> tgt \<noteq> a \<and> tgt \<noteq> b"
  proof (intro impI)
    assume ab: "et a = Some b" and ba: "et b = Some a" and a: "a \<noteq> src" and b: "b \<noteq> src"
    show "tgt \<noteq> a \<and> tgt \<noteq> b"
    proof (rule ccontr)
      assume "\<not> (tgt \<noteq> a \<and> tgt \<noteq> b)"
      then consider "tgt = a" | "tgt = b" by blast
      then show False
      proof cases
        case 1
        with step ab a have "f et src b (path @ [tgt]) = Some y" by simp
        from IH [OF this] ab ba a b show False by simp
      next
        case 2
        with step ba b have "f et src a (path @ [tgt]) = Some y" by simp
        from IH [OF this] ab ba a b show False by simp
      qed
    qed
  qed
qed

lemma pathTo_loop_cycle:
  assumes "et a = Some b" "et b = Some a" "a \<noteq> src" "b \<noteq> src"
  shows "pathTo_loop et src a path = None"
proof (cases "pathTo_loop et src a path")
  case None
  then show ?thesis .
next
  case (Some y)
  from pathTo_loop_avoids_cycle [OF this, of a b] assms show ?thesis by simp
qed

lemma cycle_stale_vertexesMap:
  "vertexesMap (after_query (after_query cycle_graph ''A'' ''B'') ''B'' ''A'') = [''A'', ''B'', ''C'']"
  by code_simp

lemma cycle_stale_edgeTo:
  "edgeTo (bfs (after_query (after_query cycle_graph ''A'' ''B'') ''B'' ''A'') 2) 0 = Some 1
   \<and> edgeTo (bfs (after_query (after_query cycle_graph ''A'' ''B'') ''B'' ''A'') 2) 1 = Some 0"
  by code_simp

lemma cycle_stale_no_return:
  "shortestPath (after_query (after_query cycle_graph ''A'' ''B'') ''B'' ''A'') ''C'' ''A'' = None"
proof -
  let ?s = "after_query (after_query cycle_graph ''A'' ''B'') ''B'' ''A''"
  have "pathTo_loop (edgeTo (bfs ?s 2)) 2 0 [] = None"
    by (rule pathTo_loop_cycle [where b = 1]) (simp_all add: cycle_stale_edgeTo)
  then show ?thesis
    by (simp add: shortestPath_def pathTo_def cycle_stale_vertexesMap indexOf_def)
qed

lemma cycle_stale_type_error:
  "map_option snd (shortestPath (after_query cycle_graph ''A'' ''B'') ''C'' ''B'')
     = Some (Inl TypeError)"
  by code_simp

lemma cycle_fresh_default:
  "map_option snd (shortestPath cycle_graph ''C'' ''B'')
     = Some (Inr \<lparr> vertexIds = [Id ''B''], edgeIds = [] \<rparr>)"
  by code_simp

text \<open>
  While the predecessor array is still empty, every entry that \<^verbatim>\<open>bfs\<close> writes
  belongs to an ordinal reachable from the source, so an unreachable target, or the
  source itself, gets the default result.
\<close>

lemma bfs_visit_reach:
  assumes "\<forall>k. et k \<noteq> None \<longrightarrow> (src, k) \<in> R\<^sup>*"
    and "\<forall>k \<in> set queue. (src, k) \<in> R\<^sup>*"
    and "(src, item) \<in> R\<^sup>*"
    and "\<forall>k \<in> set ks. (item, k) \<in> R"
    and "bfs_visit item ks (mk, et, queue) = (mk', et', queue')"
  shows "(\<forall>k. et' k \<noteq> None \<longrightarrow> (src, k) \<in> R\<^sup>*) \<and> (\<forall>k \<in> set queue'. (src, k) \<in> R\<^sup>*)"
  using assms
proof (induction ks arbitrary: mk et queue)
  case Nil
  then show ?case by simp
next
  case (Cons i ks)
  have i: "(src, i) \<in> R\<^sup>*"
    using Cons.prems(3,4) by (auto intro: rtrancl_into_rtrancl)
  show ?case
  proof (cases "marked mk i")
    case True
    with Cons.prems(5) have "bfs_visit item ks (mk, et, queue) = (mk', et', queue')"
      by simp
    from Cons.IH [OF Cons.prems(1,2,3) _ this] Cons.prems(4) show ?thesis
      by simp
  next
    case False
    with Cons.prems(5)
    have run: "bfs_visit item ks (mk(i \<mapsto> True), et(i \<mapsto> item), queue @ [i]) = (mk', et', queue')"
      by simp
    have 1: "\<forall>k. (et(i \<mapsto> item)) k \<noteq> None \<longrightarrow> (src, k) \<in> R\<^sup>*"
      using Cons.prems(1) i by simp
    have 2: "\<forall>k \<in> set (queue @ [i]). (src, k) \<in> R\<^sup>*"
      using Cons.prems(2) i by simp
    from Cons.IH [OF 1 2 Cons.prems(3) _ run] Cons.prems(4) show ?thesis
      by simp
  qed
qed

lemma bfs_loop_reach:
  assumes "\<forall>k. et k \<noteq> None \<longrightarrow> (src, k) \<in> (adj_step adj)\<^sup>*"
    and "\<forall>k \<in> set queue. (src, k) \<in> (adj_step adj)\<^sup>*"
    and "bfs_loop adj (mk, et, queue) = (mk', et')"
  shows "\<forall>k. et' k \<noteq> None \<longrightarrow> (src, k) \<in> (adj_step adj)\<^sup>*"
  using assms
proof (induction adj "(mk, et, queue)" arbitrary: mk et queue rule: bfs_loop.induct)
  case (1 adj mk et)
  then show ?case by simp
next
  case (2 adj mk et item queue)
  show ?case
  proof (cases "map_of adj item")
    case None
    with "2.prems"(3) have "bfs_loop adj (mk, et, queue) = (mk', et')"
      by simp
    from "2.hyps"(1) [OF None "2.prems"(1) _ this] "2.prems"(2) show ?thesis
      by simp
  next
    case (Some obj)
    obtain mk1 et1 q1 where v: "bfs_visit item (object_keys obj) (mk, et, queue) = (mk1, et1, q1)"
      by (metis prod_cases3)
    with "2.prems"(3) Some have run: "bfs_loop adj (mk1, et1, q1) = (mk', et')"
      by simp
    have item: "(src, item) \<in> (adj_step adj)\<^sup>*"
      using "2.prems"(2) by simp
    have keys: "\<forall>k \<in> set (object_keys obj). (item, k) \<in> adj_step adj"
      using Some by (auto simp: adj_step_def set_object_keys)
    have q: "\<forall>k \<in> set queue. (src, k) \<in> (adj_step adj)\<^sup>*"
      using "2.prems"(2) by simp
    from bfs_visit_reach [OF "2.prems"(1) q item keys v]
    have inv: "\<forall>k. et1 k \<noteq> None \<longrightarrow> (src, k) \<in> (adj_step adj)\<^sup>*"
      "\<forall>k \<in> set q1. (src, k) \<in> (adj_step adj)\<^sup>*"
      by blast+
    from "2.hyps"(2) [OF Some v inv run] show ?thesis .
  qed
qed

lemma pathTo_loop_stop:
  "to = src \<or> et to = None \<Longrightarrow> pathTo_loop et src to path = Some (path @ [src])"
  by (subst pathTo_loop.simps) auto

lemma shortestPath_fresh_default:
  assumes fresh: "edgeTo s = Map.empty"
    and far: "indexOf (vertexesMap s) target = indexOf (vertexesMap s) source
        \<or> (indexOf (vertexesMap s) source, indexOf (vertexesMap s) target) \<notin> (adj_step (adjList s))\<^sup>*"
  shows "map_option snd (shortestPath s source target)
      = Some (Inr \<lparr> vertexIds = [Id target], edgeIds = [] \<rparr>)"
proof -
  define src where "src = indexOf (vertexesMap s) source"
  define tgt where "tgt = indexOf (vertexesMap s) target"
  define mk where "mk = (clear_marker [0 ..< length (vertexesMap s)] (marker s))(src \<mapsto> True)"
  obtain mk' et' where run: "bfs_loop (adjList s) (mk, edgeTo s, [src]) = (mk', et')"
    by (metis prod.exhaust)
  have et: "edgeTo (bfs s src) = et'"
    by (simp add: bfs_def Let_def run [unfolded mk_def] del: bfs_loop.simps)
  have "\<forall>k. et' k \<noteq> None \<longrightarrow> (src, k) \<in> (adj_step (adjList s))\<^sup>*"
    by (rule bfs_loop_reach [OF _ _ run]) (simp_all add: fresh)
  with far have "tgt = src \<or> et' tgt = None"
    by (auto simp: src_def tgt_def)
  then have "pathTo (bfs s src) src tgt = Some [src]"
    using pathTo_loop_stop [of tgt src et' "[]"] by (simp add: pathTo_def et)
  then show ?thesis
    by (simp add: shortestPath_def Let_def src_def [symmetric] tgt_def [symmetric])
qed

lemma fresh_default_equal:
  "map_option snd (shortestPath chain_graph ''B'' ''B'')
     = Some (Inr \<lparr> vertexIds = [Id ''B''], edgeIds = [] \<rparr>)"
proof -
  have "edgeTo chain_graph = Map.empty"
    by (simp add: chain_graph_def preprocessData_def Let_def layout_def setEdgeIndex_def Force_new_def
        vertex_of_def edge_of_def split: prod.splits)
  then show ?thesis
    by (rule shortestPath_fresh_default) simp
qed

text \<open>
  C7 (an unreachable target gives the default result, never an error): evaluated on the
  cycle \<open>A \<rightarrow> B \<rightarrow> A\<close> with the isolated vertex \<open>C\<close>, from which nothing is
  reachable. On the fresh instance \<^verbatim>\<open>shortestPath(C, B)\<close> returns the default
  result. After \<^verbatim>\<open>shortestPath(A, B)\<close> the same call throws a \<^verbatim>\<open>TypeError\<close>, and
  after \<^verbatim>\<open>shortestPath(A, B)\<close> and \<^verbatim>\<open>shortestPath(B, A)\<close> the call
  \<^verbatim>\<open>shortestPath(C, A)\<close> does not return.
\<close>

theorem shortestPath_unreachable_stale:
  "map_option snd (shortestPath cycle_graph ''C'' ''B'')
     = Some (Inr \<lparr> vertexIds = [Id ''B''], edgeIds = [] \<rparr>)
   \<and> map_option snd (shortestPath (after_query cycle_graph ''A'' ''B'') ''C'' ''B'')
     = Some (Inl TypeError)
   \<and> shortestPath (after_query (after_query cycle_graph ''A'' ''B'') ''B'' ''A'') ''C'' ''A'' = None"
  using cycle_fresh_default cycle_stale_type_error cycle_stale_no_return
  by blast

section \<open>Reset after a filter\<close>

lemma reset_example_vertexes:
  "vertex_values reset_example (vertexes reset_example)
     = [(vertex_of ''A'')\<lparr> v_state := Some ''normal'' \<rparr>, (vertex_of ''B'')\<lparr> v_state := Some ''normal'' \<rparr>]"
  by code_simp

lemma reset_example_edges:
  "edge_values reset_example (edges reset_example)
     = [(edge_of ''e1'' ''A'' ''B'')\<lparr> e_state := Some ''normal'', e_source := Some ''A'',
          e_target := Some ''B'', edgeIndex := Number 1, siblingNum := Number 1,
          labelDirection := Number 1 \<rparr>]"
  by code_simp

lemma reset_example_raw:
  "vertex_values reset_example (rawData_vertexes reset_example) = pair_input_vertexes
   \<and> edge_values reset_example (rawData_edges reset_example) = pair_input_edges"
  by code_simp

lemma reset_example_alias:
  "vertexes reset_example = data_vertexes reset_example
   \<and> edges reset_example = data_edges reset_example"
  by (simp add: reset_example_def resetData_def)

text \<open>
  C5 (after any filter sequence \<^verbatim>\<open>resetData()\<close> restores working sets structurally
  equal to the input): evaluated on the edge \<open>A \<rightarrow> B\<close> after
  \<^verbatim>\<open>filterVertex(() => true, true)\<close> and \<^verbatim>\<open>resetData()\<close>. The working arrays are
  the arrays of \<^verbatim>\<open>this.data\<close>, whose objects the filter's preprocessing has written
  to: the vertices carry a state, the edge carries \<^verbatim>\<open>source\<close>, \<^verbatim>\<open>target\<close>, a state
  and the multiplicity fields. The deep copy \<^verbatim>\<open>rawData\<close> still equals the input and
  is not what \<^verbatim>\<open>resetData\<close> restores.
\<close>

theorem resetData_after_raw_filter:
  "vertex_values reset_example (vertexes reset_example)
     = [(vertex_of ''A'')\<lparr> v_state := Some ''normal'' \<rparr>, (vertex_of ''B'')\<lparr> v_state := Some ''normal'' \<rparr>]
   \<and> vertex_values reset_example (vertexes reset_example) \<noteq> pair_input_vertexes
   \<and> edge_values reset_example (edges reset_example) \<noteq> pair_input_edges
   \<and> vertexes reset_example = data_vertexes reset_example
   \<and> edges reset_example = data_edges reset_example
   \<and> vertex_values reset_example (rawData_vertexes reset_example) = pair_input_vertexes
   \<and> edge_values reset_example (rawData_edges reset_example) = pair_input_edges"
  using reset_example_vertexes reset_example_edges reset_example_raw reset_example_alias
  by (simp add: pair_input_vertexes_def pair_input_edges_def vertex_of_def edge_of_def)

section \<open>Arcs of parallel edges\<close>

lemma parallel_e1_fields:
  "e_from parallel_e1 = ''A'' \<and> e_to parallel_e1 = ''B'' \<and> edgeIndex parallel_e1 = Number 1
   \<and> siblingNum parallel_e1 = Number 2 \<and> labelDirection parallel_e1 = Number 1"
  by code_simp

lemma parallel_e2_fields:
  "e_from parallel_e2 = ''A'' \<and> e_to parallel_e2 = ''B'' \<and> edgeIndex parallel_e2 = Number 2
   \<and> siblingNum parallel_e2 = Number 2 \<and> labelDirection parallel_e2 = Number 1"
  by code_simp

lemma opposite_e2_fields:
  "e_from opposite_e2 = ''B'' \<and> e_to opposite_e2 = ''A'' \<and> edgeIndex opposite_e2 = Number 2
   \<and> siblingNum opposite_e2 = Number 2 \<and> labelDirection opposite_e2 = Number 0"
  by code_simp

lemma sweep_parallel:
  "map_option arc_sweepFlag (link_of parallel_e1 src tgt) = Some 1
   \<and> map_option arc_sweepFlag (link_of parallel_e2 src tgt) = Some 0"
  by (simp add: parallel_e1_fields parallel_e2_fields link_of_def arc_sweepFlag_def middleIdx_def)

lemma sweep_opposite:
  "map_option arc_sweepFlag (link_of opposite_e2 src tgt) = Some 1"
  by (simp add: opposite_e2_fields link_of_def arc_sweepFlag_def middleIdx_def)

text \<open>
  C8, as stated: the sweep flag would be inverted exactly when the pair's canonical
  direction is reversed relative to the edge. The second of two edges from \<open>A\<close> to \<open>B\<close>
  runs in the canonical direction and lies above the middle index, so the flag of the
  specification is \<open>1\<close>; the code draws it with the flag \<open>0\<close>.
\<close>

theorem sweepFlag_inverted_in_canonical_direction:
  "map_option arc_sweepFlag (link_of parallel_e2 (node_at ''A'' 0 0) (node_at ''B'' 3 4))
     \<noteq> Some (spec_sweepFlag ''A'' (e_from parallel_e2) 2 2)"
proof -
  have "spec_sweepFlag ''A'' (e_from parallel_e2) 2 2 = 1"
    by (simp add: spec_sweepFlag_def parallel_e2_fields)
  then show ?thesis
    using sweep_parallel [of "node_at ''A'' 0 0" "node_at ''B'' 3 4"] by auto
qed

text \<open>
  The radius and the sweep flag as functions of the three multiplicity fields, and the
  two paths of an edge datum.
\<close>

lemma arc_dr_formula:
  assumes "1 < l_siblingNum d" and "0 < l_edgeIndex d"
  shows "arc_dr d =
     (if real (l_edgeIndex d) = (real (l_siblingNum d) + 1) / 2 then 0
      else sqrt ((n_x (l_target d) - n_x (l_source d))\<^sup>2 + (n_y (l_target d) - n_y (l_source d))\<^sup>2)
           / (ln (\<bar>real (l_edgeIndex d) - (real (l_siblingNum d) + 1) / 2\<bar> * 0.7 + 1)
              + 1 / (10 * (real (l_edgeIndex d))\<^sup>2)))"
  using assms by (simp add: arc_dr_def middleIdx_def Let_def power2_eq_square)

lemma arc_sweepFlag_formula:
  "arc_sweepFlag d =
     (if l_labelDirection d \<noteq> 0
      then 1 - (if real (l_edgeIndex d) > (real (l_siblingNum d) + 1) / 2 then 1 else 0)
      else (if real (l_edgeIndex d) > (real (l_siblingNum d) + 1) / 2 then 1 else 0))"
  by (simp add: arc_sweepFlag_def middleIdx_def Let_def)

lemma edge_path_reverse:
  "fst (snd (edge_path r selfMap d))
     = Arc (n_x (l_target d)) (n_y (l_target d)) (arc_dr d) (1 - arc_sweepFlag d)
           (n_x (l_source d)) (n_y (l_source d))"
  by (simp add: edge_path_def Let_def)

lemma edge_path_forward:
  assumes "n_id (l_source d) \<noteq> n_id (l_target d)"
  shows "edge_path r selfMap d
     = (Some (Arc (n_x (l_source d)) (n_y (l_source d)) (arc_dr d) (arc_sweepFlag d)
                  (n_x (l_target d)) (n_y (l_target d))),
        Arc (n_x (l_target d)) (n_y (l_target d)) (arc_dr d) (1 - arc_sweepFlag d)
            (n_x (l_source d)) (n_y (l_source d)),
        selfMap)"
  using assms by (simp add: edge_path_def Let_def)

lemma link_of_setEdgeIndex:
  assumes "distinct (edges s)" and "pairs_ok (eheap s) (edges s)" and "i < length (edges s)"
  shows "link_of (eheap (setEdgeIndex s) (edges s ! i)) src tgt
     = Some \<lparr> l_source = src, l_target = tgt,
              l_edgeIndex = sibling_rank (eheap s) (edges s) i,
              l_siblingNum = sibling_count (eheap s) (edges s) (edges s ! i),
              l_labelDirection = (if runs_first_met (eheap s) (edges s) (edges s ! i) then 1 else 0) \<rparr>"
  by (simp add: link_of_def setEdgeIndex_multiplicity [OF assms])

lemma parallel_input_edges:
  "edges parallel_input = [4, 5]"
  "e_from (eheap parallel_input 4) = ''A''" "e_to (eheap parallel_input 4) = ''B''"
  "e_from (eheap parallel_input 5) = ''A''" "e_to (eheap parallel_input 5) = ''B''"
  by (simp_all add: parallel_input_def Force_new_def edge_of_def upt_rec)

lemma parallel_input_ok:
  "distinct (edges parallel_input) \<and> pairs_ok (eheap parallel_input) (edges parallel_input)"
  by (auto simp: pairs_ok_def parallel_input_edges inj_on_def object_prototype_names_def)

lemma parallel_input_siblings:
  "sibling_count (eheap parallel_input) (edges parallel_input) (edges parallel_input ! 1) = 2"
  "sibling_rank (eheap parallel_input) (edges parallel_input) 1 = 2"
  "runs_first_met (eheap parallel_input) (edges parallel_input) (edges parallel_input ! 1) = True"
  by (simp_all add: sibling_count_def sibling_rank_def runs_first_met_def siblings_def same_pair_def
      parallel_input_edges)

text \<open>
  What \<^verbatim>\<open>labelDirection\<close> says depends on the keys. On the colliding keys the edge
  from \<open>C\<close> to \<open>AB\<close> overwrites the direction recorded for the pair of \<open>A\<close> and
  \<open>BC\<close>, and the first edge of that pair gets the label direction \<open>0\<close>. On a key
  that names a member of \<^verbatim>\<open>Object.prototype\<close> the first edge finds the member, takes
  the second branch and gets the edge index \<^verbatim>\<open>NaN\<close>.
\<close>

lemma collision_graph_fields:
  "map (\<lambda>e. (edgeIndex e, siblingNum e, labelDirection e))
       (edge_values collision_graph (edges collision_graph))
     = [(Number 1, Number 2, Number 0), (Number 2, Number 2, Number 0),
        (Number 1, Number 1, Number 1), (Number 2, Number 2, Number 0)]"
  by code_simp

lemma member_graph_fields:
  "map (\<lambda>e. (edgeIndex e, siblingNum e, labelDirection e))
       (edge_values member_graph (edges member_graph))
     = [(NaN, Number 1, Number 1), (Number 1, Number 1, Number 1)]"
  by code_simp

text \<open>
  C8, amended. For every edge datum with \<open>siblingNum > 1\<close> and an edge index of at least
  \<open>1\<close>: the reverse path, and for distinct endpoints the path, is an arc whose radius is
  \<open>0\<close> when the edge index is the middle index \<open>(siblingNum + 1) / 2\<close>, and otherwise
  the euclidean distance of the endpoints divided by
  \<open>ln (|edgeIndex - middleIndex| * 0.7 + 1) + 1 / (10 * edgeIndex\<^sup>2)\<close>; the sweep flag of
  the path is \<open>1\<close> if the edge index is above the middle index, else \<open>0\<close>, inverted
  exactly when \<open>labelDirection\<close> is not \<open>0\<close>. For distinct working edge objects
  without self-loops whose concatenated endpoint ids determine the two ids and name no
  member of \<^verbatim>\<open>Object.prototype\<close>, \<^verbatim>\<open>setEdgeIndex\<close> gives the edge at index \<open>i\<close>
  the number of working edges between its endpoints as \<open>siblingNum\<close>, its position
  among them as \<open>edgeIndex\<close>, and \<open>labelDirection = 1\<close> exactly when it runs in the
  direction first met for its pair, else \<open>0\<close>; so the arc drawn for it has the radius
  above and a flag that is inverted when the edge runs in the canonical direction, not
  when it runs against it. For two edges both from \<open>A\<close> to \<open>B\<close>, with the indices
  \<open>1\<close> and \<open>2\<close>, the flags are \<open>1\<close> and \<open>0\<close>, hence different; an edge from \<open>B\<close>
  to \<open>A\<close> with the index \<open>2\<close> keeps the flag \<open>1\<close>. (Numbers are taken as reals.)
\<close>

theorem arc_geometry:
  "(1 < l_siblingNum d \<and> 0 < l_edgeIndex d \<longrightarrow>
      fst (snd (edge_path r selfMap d))
        = Arc (n_x (l_target d)) (n_y (l_target d))
            (if real (l_edgeIndex d) = (real (l_siblingNum d) + 1) / 2 then 0
             else sqrt ((n_x (l_target d) - n_x (l_source d))\<^sup>2 + (n_y (l_target d) - n_y (l_source d))\<^sup>2)
                  / (ln (\<bar>real (l_edgeIndex d) - (real (l_siblingNum d) + 1) / 2\<bar> * 0.7 + 1)
                     + 1 / (10 * (real (l_edgeIndex d))\<^sup>2)))
            (1 - (if l_labelDirection d \<noteq> 0
                  then 1 - (if real (l_edgeIndex d) > (real (l_siblingNum d) + 1) / 2 then 1 else 0)
                  else (if real (l_edgeIndex d) > (real (l_siblingNum d) + 1) / 2 then 1 else 0)))
            (n_x (l_source d)) (n_y (l_source d))
      \<and> (n_id (l_source d) \<noteq> n_id (l_target d) \<longrightarrow>
           fst (edge_path r selfMap d)
             = Some (Arc (n_x (l_source d)) (n_y (l_source d))
                 (if real (l_edgeIndex d) = (real (l_siblingNum d) + 1) / 2 then 0
                  else sqrt ((n_x (l_target d) - n_x (l_source d))\<^sup>2 + (n_y (l_target d) - n_y (l_source d))\<^sup>2)
                       / (ln (\<bar>real (l_edgeIndex d) - (real (l_siblingNum d) + 1) / 2\<bar> * 0.7 + 1)
                          + 1 / (10 * (real (l_edgeIndex d))\<^sup>2)))
                 (if l_labelDirection d \<noteq> 0
                  then 1 - (if real (l_edgeIndex d) > (real (l_siblingNum d) + 1) / 2 then 1 else 0)
                  else (if real (l_edgeIndex d) > (real (l_siblingNum d) + 1) / 2 then 1 else 0))
                 (n_x (l_target d)) (n_y (l_target d)))))
    \<and> (distinct (edges s) \<and> pairs_ok (eheap s) (edges s) \<and> i < length (edges s) \<longrightarrow>
         link_of (eheap (setEdgeIndex s) (edges s ! i)) src tgt
           = Some \<lparr> l_source = src, l_target = tgt,
                    l_edgeIndex = sibling_rank (eheap s) (edges s) i,
                    l_siblingNum = sibling_count (eheap s) (edges s) (edges s ! i),
                    l_labelDirection = (if runs_first_met (eheap s) (edges s) (edges s ! i) then 1 else 0) \<rparr>
         \<and> 1 \<le> sibling_rank (eheap s) (edges s) i
         \<and> sibling_rank (eheap s) (edges s) i \<le> sibling_count (eheap s) (edges s) (edges s ! i)
         \<and> (n_id src = e_from (eheap s (edges s ! i)) \<and> n_id tgt = e_to (eheap s (edges s ! i)) \<longrightarrow>
              map_option (\<lambda>d. fst (edge_path r selfMap d))
                  (link_of (eheap (setEdgeIndex s) (edges s ! i)) src tgt)
                = Some (Some (Arc (n_x src) (n_y src)
                    (if real (sibling_rank (eheap s) (edges s) i)
                          = (real (sibling_count (eheap s) (edges s) (edges s ! i)) + 1) / 2 then 0
                     else sqrt ((n_x tgt - n_x src)\<^sup>2 + (n_y tgt - n_y src)\<^sup>2)
                          / (ln (\<bar>real (sibling_rank (eheap s) (edges s) i)
                                   - (real (sibling_count (eheap s) (edges s) (edges s ! i)) + 1) / 2\<bar> * 0.7 + 1)
                             + 1 / (10 * (real (sibling_rank (eheap s) (edges s) i))\<^sup>2)))
                    (if runs_first_met (eheap s) (edges s) (edges s ! i)
                     then 1 - (if real (sibling_rank (eheap s) (edges s) i)
                                    > (real (sibling_count (eheap s) (edges s) (edges s ! i)) + 1) / 2
                               then 1 else 0)
                     else (if real (sibling_rank (eheap s) (edges s) i)
                                > (real (sibling_count (eheap s) (edges s) (edges s ! i)) + 1) / 2
                           then 1 else 0))
                    (n_x tgt) (n_y tgt)))))
    \<and> map_option arc_sweepFlag (link_of parallel_e1 u v) = Some 1
    \<and> map_option arc_sweepFlag (link_of parallel_e2 u v) = Some 0
    \<and> map_option arc_sweepFlag (link_of opposite_e2 u v) = Some 1"
proof (intro conjI impI)
  assume "1 < l_siblingNum d \<and> 0 < l_edgeIndex d"
  then have sib: "1 < l_siblingNum d" and idx: "0 < l_edgeIndex d"
    by simp_all
  show "fst (snd (edge_path r selfMap d))
        = Arc (n_x (l_target d)) (n_y (l_target d))
            (if real (l_edgeIndex d) = (real (l_siblingNum d) + 1) / 2 then 0
             else sqrt ((n_x (l_target d) - n_x (l_source d))\<^sup>2 + (n_y (l_target d) - n_y (l_source d))\<^sup>2)
                  / (ln (\<bar>real (l_edgeIndex d) - (real (l_siblingNum d) + 1) / 2\<bar> * 0.7 + 1)
                     + 1 / (10 * (real (l_edgeIndex d))\<^sup>2)))
            (1 - (if l_labelDirection d \<noteq> 0
                  then 1 - (if real (l_edgeIndex d) > (real (l_siblingNum d) + 1) / 2 then 1 else 0)
                  else (if real (l_edgeIndex d) > (real (l_siblingNum d) + 1) / 2 then 1 else 0)))
            (n_x (l_source d)) (n_y (l_source d))"
    unfolding edge_path_reverse arc_dr_formula [OF sib idx] arc_sweepFlag_formula [of d]
    by (rule refl)
  assume ends: "n_id (l_source d) \<noteq> n_id (l_target d)"
  show "fst (edge_path r selfMap d)
           = Some (Arc (n_x (l_source d)) (n_y (l_source d))
               (if real (l_edgeIndex d) = (real (l_siblingNum d) + 1) / 2 then 0
                else sqrt ((n_x (l_target d) - n_x (l_source d))\<^sup>2 + (n_y (l_target d) - n_y (l_source d))\<^sup>2)
                     / (ln (\<bar>real (l_edgeIndex d) - (real (l_siblingNum d) + 1) / 2\<bar> * 0.7 + 1)
                        + 1 / (10 * (real (l_edgeIndex d))\<^sup>2)))
               (if l_labelDirection d \<noteq> 0
                then 1 - (if real (l_edgeIndex d) > (real (l_siblingNum d) + 1) / 2 then 1 else 0)
                else (if real (l_edgeIndex d) > (real (l_siblingNum d) + 1) / 2 then 1 else 0))
               (n_x (l_target d)) (n_y (l_target d)))"
    unfolding edge_path_forward [OF ends] fst_conv arc_dr_formula [OF sib idx]
      arc_sweepFlag_formula [of d]
    by (rule refl)
next
  assume "distinct (edges s) \<and> pairs_ok (eheap s) (edges s) \<and> i < length (edges s)"
  then have dist: "distinct (edges s)" and ok: "pairs_ok (eheap s) (edges s)"
    and i: "i < length (edges s)"
    by simp_all
  define k where "k = sibling_count (eheap s) (edges s) (edges s ! i)"
  define j where "j = sibling_rank (eheap s) (edges s) i"
  define c where "c = runs_first_met (eheap s) (edges s) (edges s ! i)"
  define d0 where "d0 = \<lparr> l_source = src, l_target = tgt, l_edgeIndex = j, l_siblingNum = k,
                           l_labelDirection = (if c then 1 else 0) \<rparr>"
  have L: "link_of (eheap (setEdgeIndex s) (edges s ! i)) src tgt = Some d0"
    unfolding d0_def j_def k_def c_def by (rule link_of_setEdgeIndex [OF dist ok i])
  then show "link_of (eheap (setEdgeIndex s) (edges s ! i)) src tgt
           = Some \<lparr> l_source = src, l_target = tgt,
                    l_edgeIndex = sibling_rank (eheap s) (edges s) i,
                    l_siblingNum = sibling_count (eheap s) (edges s) (edges s ! i),
                    l_labelDirection = (if runs_first_met (eheap s) (edges s) (edges s ! i) then 1 else 0) \<rparr>"
    by (simp only: d0_def j_def k_def c_def)
  have bounds: "1 \<le> j" "j \<le> k"
    using sibling_rank_le [OF i, of "eheap s"] by (simp_all add: j_def k_def)
  then show "1 \<le> sibling_rank (eheap s) (edges s) i"
    and "sibling_rank (eheap s) (edges s) i \<le> sibling_count (eheap s) (edges s) (edges s ! i)"
    by (simp_all only: j_def k_def)
  assume "n_id src = e_from (eheap s (edges s ! i)) \<and> n_id tgt = e_to (eheap s (edges s ! i))"
  then have ends: "n_id (l_source d0) \<noteq> n_id (l_target d0)"
    using ok i by (simp add: d0_def pairs_ok_def)
  have e2e: "fst (edge_path r selfMap d0)
      = Some (Arc (n_x src) (n_y src)
               (if real j = (real k + 1) / 2 then 0
                else sqrt ((n_x tgt - n_x src)\<^sup>2 + (n_y tgt - n_y src)\<^sup>2)
                     / (ln (\<bar>real j - (real k + 1) / 2\<bar> * 0.7 + 1) + 1 / (10 * (real j)\<^sup>2)))
               (if c then 1 - (if real j > (real k + 1) / 2 then 1 else 0)
                else (if real j > (real k + 1) / 2 then 1 else 0))
               (n_x tgt) (n_y tgt))"
  proof (cases "1 < k")
    case True
    have s0: "1 < l_siblingNum d0" and i0: "0 < l_edgeIndex d0"
      using True bounds by (simp_all add: d0_def)
    show ?thesis
      unfolding edge_path_forward [OF ends] fst_conv arc_dr_formula [OF s0 i0]
        arc_sweepFlag_formula [of d0]
      by (simp add: d0_def)
  next
    case False
    with bounds have jk: "j = 1" "k = 1"
      by simp_all
    have "arc_dr d0 = 0"
      by (simp add: arc_dr_def Let_def d0_def jk)
    then show ?thesis
      unfolding edge_path_forward [OF ends] fst_conv arc_sweepFlag_formula [of d0]
      by (simp add: d0_def jk)
  qed
  show "map_option (\<lambda>d. fst (edge_path r selfMap d))
                  (link_of (eheap (setEdgeIndex s) (edges s ! i)) src tgt)
                = Some (Some (Arc (n_x src) (n_y src)
                    (if real (sibling_rank (eheap s) (edges s) i)
                          = (real (sibling_count (eheap s) (edges s) (edges s ! i)) + 1) / 2 then 0
                     else sqrt ((n_x tgt - n_x src)\<^sup>2 + (n_y tgt - n_y src)\<^sup>2)
                          / (ln (\<bar>real (sibling_rank (eheap s) (edges s) i)
                                   - (real (sibling_count (eheap s) (edges s) (edges s ! i)) + 1) / 2\<bar> * 0.7 + 1)
                             + 1 / (10 * (real (sibling_rank (eheap s) (edges s) i))\<^sup>2)))
                    (if runs_first_met (eheap s) (edges s) (edges s ! i)
                     then 1 - (if real (sibling_rank (eheap s) (edges s) i)
                                    > (real (sibling_count (eheap s) (edges s) (edges s ! i)) + 1) / 2
                               then 1 else 0)
                     else (if real (sibling_rank (eheap s) (edges s) i)
                                > (real (sibling_count (eheap s) (edges s) (edges s ! i)) + 1) / 2
                           then 1 else 0))
                    (n_x tgt) (n_y tgt)))"
    unfolding L option.map e2e j_def k_def c_def by (rule refl)
next
  show "map_option arc_sweepFlag (link_of parallel_e1 u v) = Some 1"
    and "map_option arc_sweepFlag (link_of parallel_e2 u v) = Some 0"
    using sweep_parallel [of u v] by simp_all
  show "map_option arc_sweepFlag (link_of opposite_e2 u v) = Some 1"
    by (rule sweep_opposite)
qed

lemma sqrt_25: "sqrt 25 = 5"
  by (rule real_sqrt_unique) simp_all

theorem arc_geometry_witness:
  "distinct (edges parallel_input) \<and> pairs_ok (eheap parallel_input) (edges parallel_input)
   \<and> 1 < length (edges parallel_input)
   \<and> n_id (node_at ''A'' 0 0) = e_from (eheap parallel_input (edges parallel_input ! 1))
   \<and> n_id (node_at ''B'' 3 4) = e_to (eheap parallel_input (edges parallel_input ! 1))
   \<and> link_of (eheap (setEdgeIndex parallel_input) (edges parallel_input ! 1))
        (node_at ''A'' 0 0) (node_at ''B'' 3 4)
      = Some \<lparr> l_source = node_at ''A'' 0 0, l_target = node_at ''B'' 3 4,
               l_edgeIndex = 2, l_siblingNum = 2, l_labelDirection = 1 \<rparr>
   \<and> map_option (\<lambda>d. fst (edge_path 20 Map.empty d))
        (link_of (eheap (setEdgeIndex parallel_input) (edges parallel_input ! 1))
           (node_at ''A'' 0 0) (node_at ''B'' 3 4))
      = Some (Some (Arc 0 0 (5 / (ln (27 / 20) + 1 / 40)) 0 3 4))
   \<and> 1 < l_siblingNum \<lparr> l_source = node_at ''A'' 0 0, l_target = node_at ''B'' 3 4,
                          l_edgeIndex = 2, l_siblingNum = 2, l_labelDirection = 1 \<rparr>
   \<and> 0 < l_edgeIndex \<lparr> l_source = node_at ''A'' 0 0, l_target = node_at ''B'' 3 4,
                         l_edgeIndex = 2, l_siblingNum = 2, l_labelDirection = 1 \<rparr>
   \<and> fst (snd (edge_path 20 Map.empty
          \<lparr> l_source = node_at ''A'' 0 0, l_target = node_at ''B'' 3 4,
            l_edgeIndex = 2, l_siblingNum = 2, l_labelDirection = 1 \<rparr>))
      = Arc 3 4 (5 / (ln (27 / 20) + 1 / 40)) 1 0 0"
proof -
  let ?src = "node_at ''A'' 0 0" and ?tgt = "node_at ''B'' 3 4"
  have d: "distinct (edges parallel_input)" and p: "pairs_ok (eheap parallel_input) (edges parallel_input)"
    using parallel_input_ok by simp_all
  have i: "1 < length (edges parallel_input)"
    by (simp add: parallel_input_edges)
  have src: "n_id ?src = e_from (eheap parallel_input (edges parallel_input ! 1))"
    and tgt: "n_id ?tgt = e_to (eheap parallel_input (edges parallel_input ! 1))"
    by (simp_all add: parallel_input_edges node_at_def)
  let ?d = "\<lparr> l_source = ?src, l_target = ?tgt, l_edgeIndex = 2, l_siblingNum = 2,
              l_labelDirection = 1 \<rparr>"
  have sib: "1 < l_siblingNum ?d" and idx: "0 < l_edgeIndex ?d"
    by simp_all
  note g = arc_geometry [where s = parallel_input and i = 1 and src = ?src and tgt = ?tgt
      and r = 20 and selfMap = Map.empty and d = ?d]
  from g sib idx have b: "fst (snd (edge_path 20 Map.empty ?d))
        = Arc (n_x (l_target ?d)) (n_y (l_target ?d))
            (if real (l_edgeIndex ?d) = (real (l_siblingNum ?d) + 1) / 2 then 0
             else sqrt ((n_x (l_target ?d) - n_x (l_source ?d))\<^sup>2 + (n_y (l_target ?d) - n_y (l_source ?d))\<^sup>2)
                  / (ln (\<bar>real (l_edgeIndex ?d) - (real (l_siblingNum ?d) + 1) / 2\<bar> * 0.7 + 1)
                     + 1 / (10 * (real (l_edgeIndex ?d))\<^sup>2)))
            (1 - (if l_labelDirection ?d \<noteq> 0
                  then 1 - (if real (l_edgeIndex ?d) > (real (l_siblingNum ?d) + 1) / 2 then 1 else 0)
                  else (if real (l_edgeIndex ?d) > (real (l_siblingNum ?d) + 1) / 2 then 1 else 0)))
            (n_x (l_source ?d)) (n_y (l_source ?d))"
    by blast
  have b': "fst (snd (edge_path 20 Map.empty ?d)) = Arc 3 4 (5 / (ln (27 / 20) + 1 / 40)) 1 0 0"
    unfolding b by (simp add: node_at_def sqrt_25)
  from g d p i have l: "link_of (eheap (setEdgeIndex parallel_input) (edges parallel_input ! 1)) ?src ?tgt
        = Some \<lparr> l_source = ?src, l_target = ?tgt,
                 l_edgeIndex = sibling_rank (eheap parallel_input) (edges parallel_input) 1,
                 l_siblingNum = sibling_count (eheap parallel_input) (edges parallel_input)
                    (edges parallel_input ! 1),
                 l_labelDirection = (if runs_first_met (eheap parallel_input) (edges parallel_input)
                    (edges parallel_input ! 1) then 1 else 0) \<rparr>"
    by blast
  from g d p i src tgt have a: "map_option (\<lambda>d. fst (edge_path 20 Map.empty d))
             (link_of (eheap (setEdgeIndex parallel_input) (edges parallel_input ! 1)) ?src ?tgt)
           = Some (Some (Arc (n_x ?src) (n_y ?src)
               (if real (sibling_rank (eheap parallel_input) (edges parallel_input) 1)
                     = (real (sibling_count (eheap parallel_input) (edges parallel_input) (edges parallel_input ! 1)) + 1) / 2 then 0
                else sqrt ((n_x ?tgt - n_x ?src)\<^sup>2 + (n_y ?tgt - n_y ?src)\<^sup>2)
                     / (ln (\<bar>real (sibling_rank (eheap parallel_input) (edges parallel_input) 1)
                              - (real (sibling_count (eheap parallel_input) (edges parallel_input) (edges parallel_input ! 1)) + 1) / 2\<bar> * 0.7 + 1)
                        + 1 / (10 * (real (sibling_rank (eheap parallel_input) (edges parallel_input) 1))\<^sup>2)))
               (if runs_first_met (eheap parallel_input) (edges parallel_input) (edges parallel_input ! 1)
                then 1 - (if real (sibling_rank (eheap parallel_input) (edges parallel_input) 1)
                               > (real (sibling_count (eheap parallel_input) (edges parallel_input) (edges parallel_input ! 1)) + 1) / 2
                          then 1 else 0)
                else (if real (sibling_rank (eheap parallel_input) (edges parallel_input) 1)
                           > (real (sibling_count (eheap parallel_input) (edges parallel_input) (edges parallel_input ! 1)) + 1) / 2
                      then 1 else 0))
               (n_x ?tgt) (n_y ?tgt)))"
    by blast
  have l': "link_of (eheap (setEdgeIndex parallel_input) (edges parallel_input ! 1)) ?src ?tgt
      = Some \<lparr> l_source = ?src, l_target = ?tgt, l_edgeIndex = 2, l_siblingNum = 2,
               l_labelDirection = 1 \<rparr>"
    using l unfolding parallel_input_siblings by simp
  have a': "map_option (\<lambda>d. fst (edge_path 20 Map.empty d))
        (link_of (eheap (setEdgeIndex parallel_input) (edges parallel_input ! 1)) ?src ?tgt)
      = Some (Some (Arc 0 0 (5 / (ln (27 / 20) + 1 / 40)) 0 3 4))"
    unfolding a parallel_input_siblings by (simp add: node_at_def sqrt_25)
  from d p i src tgt l' a' sib idx b' show ?thesis
    by blast
qed

section \<open>Zoom clamping\<close>

lemma zoomTo_target_above:
  assumes "fst (scaleExtent vp) \<le> snd (scaleExtent vp)"
    and "snd (scaleExtent vp) < sc" and "t_k (current vp) \<noteq> snd (scaleExtent vp)"
  shows "zoomTo_target vp sc = Some \<lparr> t_k = snd (scaleExtent vp),
      t_x = rect_width vp / 2 - ((rect_width vp / 2 - t_x (current vp)) / t_k (current vp)) * snd (scaleExtent vp),
      t_y = rect_height vp / 2 - ((rect_height vp / 2 - t_y (current vp)) / t_k (current vp)) * snd (scaleExtent vp) \<rparr>"
  using assms
  by (simp add: zoomTo_target_def Let_def scale_def translate_def zoomIdentity_def)

lemma zoomTo_target_below:
  assumes "fst (scaleExtent vp) \<le> snd (scaleExtent vp)"
    and "sc < fst (scaleExtent vp)" and "t_k (current vp) \<noteq> fst (scaleExtent vp)"
  shows "zoomTo_target vp sc = Some \<lparr> t_k = fst (scaleExtent vp),
      t_x = rect_width vp / 2 - ((rect_width vp / 2 - t_x (current vp)) / t_k (current vp)) * fst (scaleExtent vp),
      t_y = rect_height vp / 2 - ((rect_height vp / 2 - t_y (current vp)) / t_k (current vp)) * fst (scaleExtent vp) \<rparr>"
  using assms
  by (simp add: zoomTo_target_def Let_def scale_def translate_def zoomIdentity_def)

lemma zoomTo_target_at_max:
  assumes "snd (scaleExtent vp) < sc" and "t_k (current vp) = snd (scaleExtent vp)"
  shows "zoomTo_target vp sc = None"
  using assms by (simp add: zoomTo_target_def)

lemma zoomTo_target_at_min:
  assumes "sc < fst (scaleExtent vp)" and "t_k (current vp) = fst (scaleExtent vp)"
  shows "zoomTo_target vp sc = None"
  using assms by (simp add: zoomTo_target_def)

lemma zoomTo_repeat_above:
  assumes ext: "fst (scaleExtent vp) \<le> snd (scaleExtent vp)" and big: "snd (scaleExtent vp) < sc"
  shows "zoomTo (zoomTo vp sc) sc = zoomTo vp sc"
proof (cases "t_k (current vp) = snd (scaleExtent vp)")
  case True
  then show ?thesis
    using big by (simp add: zoomTo_def zoomTo_target_at_max)
next
  case False
  let ?vp' = "zoomTo vp sc"
  have "scaleExtent ?vp' = scaleExtent vp \<and> t_k (current ?vp') = snd (scaleExtent vp)"
    using zoomTo_target_above [OF ext big False] by (simp add: zoomTo_def transformTo_def)
  then have "zoomTo_target ?vp' sc = None"
    using big by (simp add: zoomTo_target_at_max)
  then show ?thesis
    by (simp add: zoomTo_def [of ?vp'])
qed

lemma zoomTo_repeat_below:
  assumes ext: "fst (scaleExtent vp) \<le> snd (scaleExtent vp)" and small: "sc < fst (scaleExtent vp)"
  shows "zoomTo (zoomTo vp sc) sc = zoomTo vp sc"
proof (cases "t_k (current vp) = fst (scaleExtent vp)")
  case True
  then show ?thesis
    using small by (simp add: zoomTo_def zoomTo_target_at_min)
next
  case False
  let ?vp' = "zoomTo vp sc"
  have "scaleExtent ?vp' = scaleExtent vp \<and> t_k (current ?vp') = fst (scaleExtent vp)"
    using zoomTo_target_below [OF ext small False] by (simp add: zoomTo_def transformTo_def)
  then have "zoomTo_target ?vp' sc = None"
    using small by (simp add: zoomTo_target_at_min)
  then show ?thesis
    by (simp add: zoomTo_def [of ?vp'])
qed


lemma zoomTo_target_shape:
  assumes "zoomTo_target vp sc = Some t"
  shows "t_x t = rect_width vp / 2 - ((rect_width vp / 2 - t_x (current vp)) / t_k (current vp)) * t_k t"
    and "t_y t = rect_height vp / 2 - ((rect_height vp / 2 - t_y (current vp)) / t_k (current vp)) * t_k t"
  using assms
  by (auto simp: zoomTo_target_def Let_def scale_def translate_def zoomIdentity_def split: if_splits)

lemma zoomTo_centre:
  assumes k: "t_k (current vp) \<noteq> 0"
  shows "t_x (current vp) + t_k (current vp) * p = rect_width vp / 2 \<longrightarrow>
           t_x (current (zoomTo vp sc)) + t_k (current (zoomTo vp sc)) * p = rect_width vp / 2"
    and "t_y (current vp) + t_k (current vp) * q = rect_height vp / 2 \<longrightarrow>
           t_y (current (zoomTo vp sc)) + t_k (current (zoomTo vp sc)) * q = rect_height vp / 2"
proof -
  show "t_x (current vp) + t_k (current vp) * p = rect_width vp / 2 \<longrightarrow>
           t_x (current (zoomTo vp sc)) + t_k (current (zoomTo vp sc)) * p = rect_width vp / 2"
  proof
    assume a: "t_x (current vp) + t_k (current vp) * p = rect_width vp / 2"
    then have px: "(rect_width vp / 2 - t_x (current vp)) / t_k (current vp) = p"
      using k by (simp add: field_simps)
    show "t_x (current (zoomTo vp sc)) + t_k (current (zoomTo vp sc)) * p = rect_width vp / 2"
    proof (cases "zoomTo_target vp sc")
      case None
      then show ?thesis using a by (simp add: zoomTo_def)
    next
      case (Some t)
      have "t_x t + t_k t * p = rect_width vp / 2"
        unfolding zoomTo_target_shape(1) [OF Some] px by simp
      with Some show ?thesis by (simp add: zoomTo_def transformTo_def)
    qed
  qed
  show "t_y (current vp) + t_k (current vp) * q = rect_height vp / 2 \<longrightarrow>
           t_y (current (zoomTo vp sc)) + t_k (current (zoomTo vp sc)) * q = rect_height vp / 2"
  proof
    assume a: "t_y (current vp) + t_k (current vp) * q = rect_height vp / 2"
    then have py: "(rect_height vp / 2 - t_y (current vp)) / t_k (current vp) = q"
      using k by (simp add: field_simps)
    show "t_y (current (zoomTo vp sc)) + t_k (current (zoomTo vp sc)) * q = rect_height vp / 2"
    proof (cases "zoomTo_target vp sc")
      case None
      then show ?thesis using a by (simp add: zoomTo_def)
    next
      case (Some t)
      have "t_y t + t_k t * q = rect_height vp / 2"
        unfolding zoomTo_target_shape(2) [OF Some] py by simp
      with Some show ?thesis by (simp add: zoomTo_def transformTo_def)
    qed
  qed
qed

text \<open>
  C9: with a scale extent \<open>[kMin, kMax]\<close>, \<open>kMin \<le> kMax\<close>, and a positive current scale
  \<open>k0\<close> (numbers taken as reals): after a request above \<open>kMax\<close> (below \<open>kMin\<close>) while
  the current scale is not at that bound, the current transform has the scale exactly
  \<open>kMax\<close> (\<open>kMin\<close>) and the translation \<open>x1 = cx - ((cx - x0) / k0) * s\<close>,
  \<open>y1 = cy - ((cy - y0) / k0) * s\<close>, where \<open>(cx, cy)\<close> is the centre of the container,
  and nothing else of the viewport has changed; while the current scale is at that
  bound the call returns early and the viewport is unchanged; so repeating an
  out-of-range request changes nothing. The centre stays fixed: the graph coordinates
  \<open>p\<close>, \<open>q\<close> shown at the centre before the call are shown there after it.
\<close>

theorem zoomTo_clamps:
  assumes ext: "fst (scaleExtent vp) \<le> snd (scaleExtent vp)"
    and pos: "0 < t_k (current vp)"
  shows "(snd (scaleExtent vp) < sc \<and> t_k (current vp) \<noteq> snd (scaleExtent vp) \<longrightarrow>
            zoomTo vp sc = vp\<lparr> current := \<lparr> t_k = snd (scaleExtent vp),
              t_x = rect_width vp / 2 - ((rect_width vp / 2 - t_x (current vp)) / t_k (current vp)) * snd (scaleExtent vp),
              t_y = rect_height vp / 2 - ((rect_height vp / 2 - t_y (current vp)) / t_k (current vp)) * snd (scaleExtent vp) \<rparr> \<rparr>)
       \<and> (sc < fst (scaleExtent vp) \<and> t_k (current vp) \<noteq> fst (scaleExtent vp) \<longrightarrow>
            zoomTo vp sc = vp\<lparr> current := \<lparr> t_k = fst (scaleExtent vp),
              t_x = rect_width vp / 2 - ((rect_width vp / 2 - t_x (current vp)) / t_k (current vp)) * fst (scaleExtent vp),
              t_y = rect_height vp / 2 - ((rect_height vp / 2 - t_y (current vp)) / t_k (current vp)) * fst (scaleExtent vp) \<rparr> \<rparr>)
       \<and> (snd (scaleExtent vp) < sc \<and> t_k (current vp) = snd (scaleExtent vp) \<longrightarrow>
            zoomTo_target vp sc = None \<and> zoomTo vp sc = vp)
       \<and> (sc < fst (scaleExtent vp) \<and> t_k (current vp) = fst (scaleExtent vp) \<longrightarrow>
            zoomTo_target vp sc = None \<and> zoomTo vp sc = vp)
       \<and> (snd (scaleExtent vp) < sc \<or> sc < fst (scaleExtent vp) \<longrightarrow>
            zoomTo (zoomTo vp sc) sc = zoomTo vp sc)
       \<and> (t_x (current vp) + t_k (current vp) * p = rect_width vp / 2 \<longrightarrow>
            t_x (current (zoomTo vp sc)) + t_k (current (zoomTo vp sc)) * p = rect_width vp / 2)
       \<and> (t_y (current vp) + t_k (current vp) * q = rect_height vp / 2 \<longrightarrow>
            t_y (current (zoomTo vp sc)) + t_k (current (zoomTo vp sc)) * q = rect_height vp / 2)"
proof -
  have k: "t_k (current vp) \<noteq> 0"
    using pos by simp
  have above: "zoomTo vp sc = vp\<lparr> current := \<lparr> t_k = snd (scaleExtent vp),
              t_x = rect_width vp / 2 - ((rect_width vp / 2 - t_x (current vp)) / t_k (current vp)) * snd (scaleExtent vp),
              t_y = rect_height vp / 2 - ((rect_height vp / 2 - t_y (current vp)) / t_k (current vp)) * snd (scaleExtent vp) \<rparr> \<rparr>"
    if "snd (scaleExtent vp) < sc \<and> t_k (current vp) \<noteq> snd (scaleExtent vp)"
    using that zoomTo_target_above [OF ext, of sc] by (simp add: zoomTo_def transformTo_def)
  have below: "zoomTo vp sc = vp\<lparr> current := \<lparr> t_k = fst (scaleExtent vp),
              t_x = rect_width vp / 2 - ((rect_width vp / 2 - t_x (current vp)) / t_k (current vp)) * fst (scaleExtent vp),
              t_y = rect_height vp / 2 - ((rect_height vp / 2 - t_y (current vp)) / t_k (current vp)) * fst (scaleExtent vp) \<rparr> \<rparr>"
    if "sc < fst (scaleExtent vp) \<and> t_k (current vp) \<noteq> fst (scaleExtent vp)"
    using that zoomTo_target_below [OF ext, of sc] by (simp add: zoomTo_def transformTo_def)
  have at_max: "zoomTo_target vp sc = None \<and> zoomTo vp sc = vp"
    if "snd (scaleExtent vp) < sc \<and> t_k (current vp) = snd (scaleExtent vp)"
    using that by (simp add: zoomTo_def zoomTo_target_at_max)
  have at_min: "zoomTo_target vp sc = None \<and> zoomTo vp sc = vp"
    if "sc < fst (scaleExtent vp) \<and> t_k (current vp) = fst (scaleExtent vp)"
    using that by (simp add: zoomTo_def zoomTo_target_at_min)
  have again: "zoomTo (zoomTo vp sc) sc = zoomTo vp sc"
    if "snd (scaleExtent vp) < sc \<or> sc < fst (scaleExtent vp)"
    using that zoomTo_repeat_above [OF ext] zoomTo_repeat_below [OF ext] by blast
  from above below at_max at_min again
    zoomTo_centre(1) [OF k, where p = p and sc = sc] zoomTo_centre(2) [OF k, where q = q and sc = sc]
  show ?thesis
    by blast
qed

theorem zoomTo_clamps_witness:
  "fst (scaleExtent view0) \<le> snd (scaleExtent view0) \<and> 0 < t_k (current view0)
   \<and> snd (scaleExtent view0) < 3 \<and> t_k (current view0) \<noteq> snd (scaleExtent view0)
   \<and> zoomTo view0 3 = view0\<lparr> current := \<lparr> t_k = 2, t_x = - 380, t_y = - 260 \<rparr> \<rparr>
   \<and> zoomTo (zoomTo view0 3) 3 = zoomTo view0 3
   \<and> t_x (current view0) + t_k (current view0) * 390 = rect_width view0 / 2
   \<and> t_x (current (zoomTo view0 3)) + t_k (current (zoomTo view0 3)) * 390 = rect_width view0 / 2"
proof -
  have ext: "fst (scaleExtent view0) \<le> snd (scaleExtent view0)"
    by (simp add: view0_def)
  have pos: "0 < t_k (current view0)"
    by (simp add: view0_def)
  have big: "snd (scaleExtent view0) < 3 \<and> t_k (current view0) \<noteq> snd (scaleExtent view0)"
    by (simp add: view0_def)
  have mid: "t_x (current view0) + t_k (current view0) * 390 = rect_width view0 / 2"
    by (simp add: view0_def)
  from zoomTo_clamps [OF ext pos, where sc = 3 and p = 390] big mid
  have "zoomTo view0 3 = view0\<lparr> current := \<lparr> t_k = snd (scaleExtent view0),
      t_x = rect_width view0 / 2 - ((rect_width view0 / 2 - t_x (current view0)) / t_k (current view0)) * snd (scaleExtent view0),
      t_y = rect_height view0 / 2 - ((rect_height view0 / 2 - t_y (current view0)) / t_k (current view0)) * snd (scaleExtent view0) \<rparr> \<rparr>"
    and "zoomTo (zoomTo view0 3) 3 = zoomTo view0 3"
    and "t_x (current (zoomTo view0 3)) + t_k (current (zoomTo view0 3)) * 390 = rect_width view0 / 2"
    by blast+
  then show ?thesis
    using ext pos big mid by (simp add: view0_def)
qed

section \<open>Neighbourhood queries keep or drop duplicates\<close>

lemma radiation_each_eq:
  "radiation_each d es r =
     r\<lparr> vertexIds := vertexIds r @ map (\<lambda>e. Id (e_to e)) (filter (\<lambda>e. e_from e = d) es),
        edgeIds := edgeIds r @ map (\<lambda>e. Id (e_id e)) (filter (\<lambda>e. e_from e = d) es) \<rparr>"
  by (induction es arbitrary: r) simp_all

lemma count_list_targets:
  "count_list (map (\<lambda>e. Id (e_to e)) (filter (\<lambda>e. e_from e = d) es)) (Id t)
     = length (filter (\<lambda>e. e_from e = d \<and> e_to e = t) es)"
  by (induction es) simp_all

lemma set_add_all_distinct: "distinct seen \<Longrightarrow> distinct (set_add_all seen xs)"
  by (induction xs arbitrary: seen) simp_all

lemma set_add_all_set: "set (set_add_all seen xs) = set seen \<union> set xs"
  by (induction xs arbitrary: seen) auto

lemma relation_each_vertexIds:
  "vertexIds (relation_each d es r) =
     vertexIds r @ concat (map (\<lambda>e. [Id (e_to e), Id (e_from e)])
                               (filter (\<lambda>e. e_from e = d \<or> e_to e = d) es))"
  by (induction es arbitrary: r) simp_all

lemma relation_each_edgeIds:
  "edgeIds (relation_each d es r) =
     edgeIds r @ map (\<lambda>e. Id (e_id e)) (filter (\<lambda>e. e_from e = d \<or> e_to e = d) es)"
  by (induction es arbitrary: r) simp_all

lemma radiationVertex_vertexIds:
  "vertexIds (radiationVertex s d)
     = Id d # map (\<lambda>e. Id (e_to e)) (filter (\<lambda>e. e_from e = d) (edge_values s (edges s)))"
  by (simp add: radiationVertex_def radiation_each_eq)

lemma radiationVertex_edgeIds:
  "edgeIds (radiationVertex s d)
     = map (\<lambda>e. Id (e_id e)) (filter (\<lambda>e. e_from e = d) (edge_values s (edges s)))"
  by (simp add: radiationVertex_def radiation_each_eq)

lemma relationVertex_distinct: "distinct (vertexIds (relationVertex s d))"
  by (simp add: relationVertex_def Let_def array_from_set_def set_add_all_distinct)

lemma relationVertex_set:
  "set (vertexIds (relationVertex s d))
     = insert (Id d) (\<Union>e \<in> {e \<in> set (edge_values s (edges s)). e_from e = d \<or> e_to e = d}.
                        {Id (e_to e), Id (e_from e)})"
  by (auto simp: relationVertex_def Let_def array_from_set_def set_add_all_set relation_each_vertexIds)

lemma relationVertex_edgeIds:
  "edgeIds (relationVertex s d)
     = map (\<lambda>e. Id (e_id e)) (filter (\<lambda>e. e_from e = d \<or> e_to e = d) (edge_values s (edges s)))"
  by (simp add: relationVertex_def Let_def relation_each_edgeIds)

text \<open>
  C10: \<^verbatim>\<open>radiationVertex(d)\<close> returns the id of \<open>d\<close> followed by the target of every
  working edge that starts at \<open>d\<close>, in the order of the working edges and with
  repetitions, so that behind the id of \<open>d\<close> a target \<open>t\<close> occurs once per edge from \<open>d\<close>
  to \<open>t\<close>; its edge ids are those edges in the same order. \<^verbatim>\<open>relationVertex(d)\<close>
  returns every vertex id once: \<open>d\<close> and the endpoints of the incident edges.
\<close>

theorem radiationVertex_keeps_duplicates:
  "vertexIds (radiationVertex s d)
     = Id d # map (\<lambda>e. Id (e_to e)) (filter (\<lambda>e. e_from e = d) (edge_values s (edges s)))
   \<and> edgeIds (radiationVertex s d)
     = map (\<lambda>e. Id (e_id e)) (filter (\<lambda>e. e_from e = d) (edge_values s (edges s)))
   \<and> count_list (tl (vertexIds (radiationVertex s d))) (Id t)
     = length (filter (\<lambda>e. e_from e = d \<and> e_to e = t) (edge_values s (edges s)))
   \<and> distinct (vertexIds (relationVertex s d))
   \<and> set (vertexIds (relationVertex s d))
     = insert (Id d) (\<Union>e \<in> {e \<in> set (edge_values s (edges s)). e_from e = d \<or> e_to e = d}.
                        {Id (e_to e), Id (e_from e)})
   \<and> edgeIds (relationVertex s d)
     = map (\<lambda>e. Id (e_id e)) (filter (\<lambda>e. e_from e = d \<or> e_to e = d) (edge_values s (edges s)))"
  using relationVertex_distinct [of s d] relationVertex_set [of s d] relationVertex_edgeIds [of s d]
  by (simp add: radiationVertex_vertexIds radiationVertex_edgeIds count_list_targets)

section \<open>Filtering the raw data twice\<close>

lemma raw_once_sets:
  "map v_id (vertex_values raw_once (vertexes raw_once)) = [''A'', ''B'']
   \<and> map e_id (edge_values raw_once (edges raw_once)) = [''e1'']"
  by code_simp

lemma raw_twice_sets:
  "vertexes raw_twice = [] \<and> edges raw_twice = []"
  by code_simp

lemma raw_states:
  "map v_state (vertex_values pair_graph (data_vertexes pair_graph)) = [None, None]
   \<and> map v_state (vertex_values raw_once (data_vertexes raw_once)) = [Some ''normal'', Some ''normal'']"
  by code_simp

lemma raw_once_alias:
  "vertexes raw_once = data_vertexes raw_once \<and> edges raw_once = data_edges raw_once"
  by code_simp

text \<open>
  C6 (filtering twice gives the working sets of filtering once, for every predicate
  that is a pure function of the element, in the raw mode and in the working mode):
  evaluated on the preprocessed edge \<open>A \<rightarrow> B\<close> with the predicate
  \<^verbatim>\<open>v => v.state === undefined\<close> in the raw mode. The objects of \<^verbatim>\<open>this.data\<close> have
  no state, so the first call keeps both vertices and the edge. It makes the objects of
  \<^verbatim>\<open>this.data\<close> the working objects and preprocesses them, which gives them the
  state \<^verbatim>\<open>'normal'\<close>; the second call reads the same objects and keeps nothing.
\<close>

theorem filterVertex_twice_differs:
  "map v_id (vertex_values raw_once (vertexes raw_once)) = [''A'', ''B'']
   \<and> map e_id (edge_values raw_once (edges raw_once)) = [''e1'']
   \<and> vertexes raw_twice = []
   \<and> edges raw_twice = []
   \<and> map v_state (vertex_values pair_graph (data_vertexes pair_graph)) = [None, None]
   \<and> vertexes raw_once = data_vertexes raw_once
   \<and> map v_state (vertex_values raw_once (data_vertexes raw_once)) = [Some ''normal'', Some ''normal'']"
  using raw_once_sets raw_twice_sets raw_states raw_once_alias
  by blast

end
